theory Spec2Isabelle
  imports Complex_Main
begin

section \<open>Strings and characters\<close>

text \<open>
  Expression texts are JavaScript strings. They are modelled as \<open>string\<close>, a list of
  8-bit characters: the texts whose UTF-16 code units are all below 256, one
  character per code unit, so that \<open>length\<close> is the source's \<open>expression.length\<close>.
  The character classes below are those of the source's regular expressions,
  restricted to that range.
\<close>

text \<open>\<open>\s\<close> and \<open>String.prototype.trim\<close>: tab, LF, VT, FF, CR, space, NBSP.\<close>

definition is_space :: "char \<Rightarrow> bool" where
  "is_space c = (c \<in> set [CHR 0x09, CHR 0x0A, CHR 0x0B, CHR 0x0C, CHR 0x0D, CHR '' '', CHR 0xA0])"

text \<open>\<open>\d\<close>\<close>

definition is_digit :: "char \<Rightarrow> bool" where
  "is_digit c = (c \<in> set ''0123456789'')"

text \<open>\<open>[a-z]\<close>, \<open>[A-Z]\<close> and \<open>[a-zA-Z]\<close>\<close>

definition lower_case :: string where
  "lower_case = ''abcdefghijklmnopqrstuvwxyz''"

definition upper_case :: string where
  "upper_case = ''ABCDEFGHIJKLMNOPQRSTUVWXYZ''"

definition is_letter :: "char \<Rightarrow> bool" where
  "is_letter c = (c \<in> set lower_case \<or> c \<in> set upper_case)"

text \<open>\<open>\w\<close>, the class that decides \<open>\b\<close>: \<open>[A-Za-z0-9_]\<close>\<close>

definition is_word :: "char \<Rightarrow> bool" where
  "is_word c = (is_letter c \<or> is_digit c \<or> c = CHR ''_'')"

text \<open>\<open>[a-zA-Z_$]\<close> and \<open>[a-zA-Z0-9_$]\<close>\<close>

definition is_ident_start :: "char \<Rightarrow> bool" where
  "is_ident_start c = (is_letter c \<or> c = CHR ''_'' \<or> c = CHR ''$'')"

definition is_ident_part :: "char \<Rightarrow> bool" where
  "is_ident_part c = (is_letter c \<or> is_digit c \<or> c = CHR ''_'' \<or> c = CHR ''$'')"

text \<open>\<open>[+\-*/^]\<close>, \<open>[*/^]\<close> and \<open>[+\-*/^%]\<close>\<close>

definition is_arith_op :: "char \<Rightarrow> bool" where
  "is_arith_op c = (c \<in> set ''+-*/^'')"

definition is_mul_op :: "char \<Rightarrow> bool" where
  "is_mul_op c = (c \<in> set ''*/^'')"

definition is_operator :: "char \<Rightarrow> bool" where
  "is_operator c = (c \<in> set ''+-*/^%'')"

text \<open>
  The canonical form the \<open>i\<close> flag compares: an ASCII lower-case letter becomes its
  upper-case letter. Every pattern of the source that carries the flag is made of
  ASCII characters, and a character outside ASCII never canonicalises into ASCII.
\<close>

definition canon :: "char \<Rightarrow> char" where
  "canon c = (case map_of (zip lower_case upper_case) c of Some u \<Rightarrow> u | None \<Rightarrow> c)"

text \<open>\<open>String.prototype.trim\<close>\<close>

definition trim :: "string \<Rightarrow> string" where
  "trim e = rev (dropWhile is_space (rev (dropWhile is_space e)))"

text \<open>\<open>Array.prototype.join\<close>\<close>

fun join :: "string \<Rightarrow> string list \<Rightarrow> string" where
  "join sep [] = []"
| "join sep [x] = x"
| "join sep (x # y # ys) = x @ sep @ join sep (y # ys)"

text \<open>\<open>[...new Set(xs)]\<close>: the first occurrence of each element, in order.\<close>

fun dedup :: "'a list \<Rightarrow> 'a list" where
  "dedup [] = []"
| "dedup (x # xs) = x # dedup (filter (\<lambda>y. y \<noteq> x) xs)"

section \<open>Regular expressions\<close>

text \<open>
  The fragment of JavaScript regular expressions the source uses: literal text,
  a character class, a greedy repetition of a class with a minimum count
  (\<open>*\<close>, \<open>+\<close>, \<open>{2,}\<close>), sequence, alternation, one capturing group, \<open>\b\<close>, \<open>^\<close> and
  \<open>$\<close> (no \<open>m\<close> flag: start and end of the text).
\<close>

datatype rx =
    Lit string
  | Cls "char \<Rightarrow> bool"
  | Rep nat "char \<Rightarrow> bool"
  | Seq rx rx
  | Alt rx rx
  | Grp rx
  | WordB
  | Bos
  | Eos

text \<open>
  A matcher state is a position in the text, held as the text before it (latest
  character first) and the text after it, and the text captured by the group.
  \<open>rx_at\<close> lists the states a pattern can end in when started at a state, in the
  order a backtracking matcher tries them, so the head is the match it reports.
\<close>

type_synonym mstate = "string \<times> string \<times> string option"

fun lit_at :: "bool \<Rightarrow> string \<Rightarrow> string \<Rightarrow> string \<Rightarrow> (string \<times> string) option" where
  "lit_at ic [] b a = Some (b, a)"
| "lit_at ic (x # w) b [] = None"
| "lit_at ic (x # w) b (c # a) =
     (if (if ic then canon x = canon c else x = c) then lit_at ic w (c # b) a else None)"

text \<open>Greedy repetition: the longest run first, down to the minimum count.\<close>

fun rep_at :: "nat \<Rightarrow> (char \<Rightarrow> bool) \<Rightarrow> string \<Rightarrow> string \<Rightarrow> (string \<times> string) list" where
  "rep_at m P b [] = (if m = 0 then [(b, [])] else [])"
| "rep_at m P b (c # a) =
     (if P c then rep_at (m - 1) P (c # b) a else []) @ (if m = 0 then [(b, c # a)] else [])"

definition word_next :: "string \<Rightarrow> bool" where
  "word_next a = (case a of [] \<Rightarrow> False | c # _ \<Rightarrow> is_word c)"

fun rx_at :: "bool \<Rightarrow> rx \<Rightarrow> mstate \<Rightarrow> mstate list" where
  "rx_at ic (Lit w) (b, a, cap) =
     (case lit_at ic w b a of None \<Rightarrow> [] | Some (b', a') \<Rightarrow> [(b', a', cap)])"
| "rx_at ic (Cls P) (b, a, cap) =
     (case a of [] \<Rightarrow> [] | c # a' \<Rightarrow> if P c then [(c # b, a', cap)] else [])"
| "rx_at ic (Rep m P) (b, a, cap) = map (\<lambda>(b', a'). (b', a', cap)) (rep_at m P b a)"
| "rx_at ic (Seq r1 r2) st = concat (map (rx_at ic r2) (rx_at ic r1 st))"
| "rx_at ic (Alt r1 r2) st = rx_at ic r1 st @ rx_at ic r2 st"
| "rx_at ic (Grp r) (b, a, cap) =
     map (\<lambda>(b', a', _). (b', a', Some (rev (take (length b' - length b) b'))))
       (rx_at ic r (b, a, cap))"
| "rx_at ic WordB (b, a, cap) = (if word_next b \<noteq> word_next a then [(b, a, cap)] else [])"
| "rx_at ic Bos (b, a, cap) = (if b = [] then [(b, a, cap)] else [])"
| "rx_at ic Eos (b, a, cap) = (if a = [] then [(b, a, cap)] else [])"

text \<open>
  A scan cuts the text into the stretches no match covers and the matches, each
  with its captured text.
\<close>

datatype piece = Kept string | Hit string "string option"

text \<open>
  The scan over the start positions, left to right. \<open>skip\<close> counts the characters
  that the last match still covers (the distance to \<open>lastIndex\<close>). With \<open>global\<close>
  the scan goes on after a match, from its end, or one character further when the
  match is empty; without, it stops at the first match.
\<close>

fun rx_scan :: "bool \<Rightarrow> bool \<Rightarrow> rx \<Rightarrow> nat \<Rightarrow> string \<Rightarrow> string \<Rightarrow> piece list" where
  "rx_scan global ic r skip b [] =
     (if skip = 0
      then (case rx_at ic r (b, [], None) of [] \<Rightarrow> [] | (_, _, cap) # _ \<Rightarrow> [Hit [] cap])
      else [])"
| "rx_scan global ic r skip b (c # cs) =
     (case skip of
        Suc k \<Rightarrow> rx_scan global ic r k (c # b) cs
      | 0 \<Rightarrow>
         (case rx_at ic r (b, c # cs, None) of
            [] \<Rightarrow> Kept [c] # rx_scan global ic r 0 (c # b) cs
          | (_, a', cap) # _ \<Rightarrow>
              (let k = length (c # cs) - length a'
               in Hit (take k (c # cs)) cap #
                  (if \<not> global then [Kept (drop k (c # cs))]
                   else if k = 0 then Kept [c] # rx_scan global ic r 0 (c # b) cs
                   else rx_scan global ic r (k - 1) (c # b) cs))))"

definition rx_pieces :: "bool \<Rightarrow> bool \<Rightarrow> rx \<Rightarrow> string \<Rightarrow> piece list" where
  "rx_pieces global ic r s = rx_scan global ic r 0 [] s"

fun hits :: "piece list \<Rightarrow> string list" where
  "hits [] = []"
| "hits (Kept _ # ps) = hits ps"
| "hits (Hit m _ # ps) = m # hits ps"

text \<open>\<open>pattern.test(text)\<close> on a pattern whose \<open>lastIndex\<close> is 0.\<close>

definition rx_test :: "bool \<Rightarrow> rx \<Rightarrow> string \<Rightarrow> bool" where
  "rx_test ic r s = (hits (rx_pieces False ic r s) \<noteq> [])"

text \<open>\<open>text.match(pattern)\<close> with the \<open>g\<close> flag, \<open>null\<close> read as the empty list
  (the source writes \<open>|| []\<close> or tests the result before it loops).\<close>

definition match_all :: "rx \<Rightarrow> string \<Rightarrow> string list" where
  "match_all r s = hits (rx_pieces True False r s)"

text \<open>
  \<open>text.replace(pattern, replacement)\<close>: the text between the matches is kept and
  each match gives way to \<open>f\<close> of the text of the group (\<open>$1\<close>; the empty text
  when the pattern has no group).
\<close>

fun splice :: "(string \<Rightarrow> string) \<Rightarrow> piece list \<Rightarrow> string" where
  "splice f [] = []"
| "splice f (Kept t # ps) = t @ splice f ps"
| "splice f (Hit _ cap # ps) = f (case cap of None \<Rightarrow> [] | Some g \<Rightarrow> g) @ splice f ps"

definition replace :: "bool \<Rightarrow> rx \<Rightarrow> (string \<Rightarrow> string) \<Rightarrow> string \<Rightarrow> string" where
  "replace global r f s = splice f (rx_pieces global False r s)"

text \<open>
  The shapes most patterns of the source have: an alternation of literal words, in
  a group, after \<open>\b\<close>, and before \<open>\s*\(\<close> or \<open>\b\<close>.
\<close>

fun alts :: "string list \<Rightarrow> rx" where
  "alts [] = Lit []"
| "alts [w] = Lit w"
| "alts (w # ws) = Alt (Lit w) (alts ws)"

text \<open>\<open>/\b(name|...)\s*\(/g\<close> and \<open>/\b(name|...)\b/g\<close>\<close>

definition calls_of :: "string list \<Rightarrow> rx" where
  "calls_of ws = Seq WordB (Seq (Grp (alts ws)) (Seq (Rep 0 is_space) (Lit ''('')))"

definition words_of :: "string list \<Rightarrow> rx" where
  "words_of ws = Seq WordB (Seq (Grp (alts ws)) WordB)"

section \<open>The allow-list registry\<close>

text \<open>The keys of \<open>SAFE_MATH_FUNCTIONS\<close>, in the order of the source.\<close>

definition SAFE_MATH_FUNCTIONS :: "string list" where
  "SAFE_MATH_FUNCTIONS =
     [''sin'', ''cos'', ''tan'', ''asin'', ''acos'', ''atan'', ''atan2'',
      ''sinh'', ''cosh'', ''tanh'', ''asinh'', ''acosh'', ''atanh'',
      ''exp'', ''exp2'', ''expm1'', ''log'', ''log10'', ''log2'', ''log1p'',
      ''pow'', ''sqrt'', ''cbrt'', ''hypot'',
      ''abs'', ''sign'', ''floor'', ''ceil'', ''round'', ''trunc'', ''fround'',
      ''min'', ''max'', ''clamp'',
      ''fmod'', ''remainder'', ''gamma'',
      ''PI'', ''E'', ''LN2'', ''LN10'', ''LOG2E'', ''LOG10E'', ''SQRT1_2'', ''SQRT2'',
      ''TAU'', ''PHI'', ''DEG2RAD'', ''RAD2DEG'']"

text \<open>
  The source tests membership with the \<open>in\<close> operator, which also finds the
  properties an object literal inherits from \<open>Object.prototype\<close>.
\<close>

definition OBJECT_PROTOTYPE :: "string list" where
  "OBJECT_PROTOTYPE =
     [''constructor'', ''hasOwnProperty'', ''isPrototypeOf'', ''propertyIsEnumerable'',
      ''toLocaleString'', ''toString'', ''valueOf'', ''__proto__'',
      ''__defineGetter__'', ''__defineSetter__'', ''__lookupGetter__'', ''__lookupSetter__'']"

definition in_SAFE_MATH_FUNCTIONS :: "string \<Rightarrow> bool" where
  "in_SAFE_MATH_FUNCTIONS name = (name \<in> set SAFE_MATH_FUNCTIONS \<or> name \<in> set OBJECT_PROTOTYPE)"

section \<open>The validator\<close>

record ValidationResult =
  isValid :: bool
  errors :: "string list"
  warnings :: "string list"
  complexity :: int
  functionsUsed :: "string list"
  variablesUsed :: "string list"

definition MAX_CACHE_SIZE :: nat where "MAX_CACHE_SIZE = 1000"
definition EVALUATION_TIMEOUT :: real where "EVALUATION_TIMEOUT = 100"
definition MAX_EXPRESSION_LENGTH :: nat where "MAX_EXPRESSION_LENGTH = 2000"
definition MAX_NESTING_DEPTH :: int where "MAX_NESTING_DEPTH = 20"

text \<open>\<open>hasBalancedParentheses\<close>: the loop with its counter, leaving at the first
  closing parenthesis that has no opening one.\<close>

fun balanced_from :: "int \<Rightarrow> string \<Rightarrow> bool" where
  "balanced_from count [] = (count = 0)"
| "balanced_from count (c # cs) =
     (let count = (if c = CHR ''('' then count + 1 else count);
          count = (if c = CHR '')'' then count - 1 else count)
      in if count < 0 then False else balanced_from count cs)"

definition hasBalancedParentheses :: "string \<Rightarrow> bool" where
  "hasBalancedParentheses expression = balanced_from 0 expression"

text \<open>\<open>calculateNestingDepth\<close>: the loop with \<open>maxDepth\<close> and \<open>currentDepth\<close>.\<close>

fun depth_from :: "int \<Rightarrow> int \<Rightarrow> string \<Rightarrow> int" where
  "depth_from maxDepth currentDepth [] = maxDepth"
| "depth_from maxDepth currentDepth (c # cs) =
     (if c = CHR ''('' then depth_from (max maxDepth (currentDepth + 1)) (currentDepth + 1) cs
      else if c = CHR '')'' then depth_from maxDepth (currentDepth - 1) cs
      else depth_from maxDepth currentDepth cs)"

definition calculateNestingDepth :: "string \<Rightarrow> int" where
  "calculateNestingDepth expression = depth_from 0 0 expression"

text \<open>The five \<open>invalidPatterns\<close> of \<open>validateSyntax\<close>.\<close>

definition invalidPatterns :: "rx list" where
  "invalidPatterns =
     [Seq (Lit '')'') (Seq (Rep 0 is_space) (Lit ''('')),
      Seq (Rep 1 is_digit) (Seq (Rep 0 is_space) (Cls is_letter)),
      Rep 2 is_arith_op,
      Seq (Cls is_arith_op) (Seq (Rep 0 is_space) Eos),
      Seq Bos (Seq (Rep 0 is_space) (Cls is_mul_op))]"

definition validateSyntax :: "string \<Rightarrow> ValidationResult \<Rightarrow> ValidationResult" where
  "validateSyntax expression result =
     (let result = (if \<not> hasBalancedParentheses expression
                    then result\<lparr>errors := errors result @ [''Unbalanced parentheses''],
                                 isValid := False\<rparr>
                    else result);
          nestingDepth = calculateNestingDepth expression;
          result = (if nestingDepth > MAX_NESTING_DEPTH
                    then result\<lparr>errors := errors result @ [''Nesting too deep (max 20 levels)''],
                                 isValid := False\<rparr>
                    else result)
      in if \<exists>pattern \<in> set invalidPatterns. rx_test False pattern expression
         then result\<lparr>warnings := warnings result @ [''Potentially invalid syntax detected'']\<rparr>
         else result)"

text \<open>The deny-list of \<open>validateSecurity\<close>; every pattern carries the \<open>i\<close> flag.\<close>

definition call_of :: "string \<Rightarrow> rx" where
  "call_of w = Seq (Lit w) (Seq (Rep 0 is_space) (Lit ''(''))"

definition forbiddenPatterns :: "(rx \<times> string) list" where
  "forbiddenPatterns =
     [(call_of ''eval'', ''eval function''),
      (call_of ''function'', ''function declaration''),
      (Lit ''=>'', ''arrow function''),
      (call_of ''while'', ''while loop''),
      (call_of ''for'', ''for loop''),
      (Seq (Lit ''do'') (Seq (Rep 0 is_space) (Lit ''{'')), ''do-while loop''),
      (call_of ''if'', ''conditional statement''),
      (Seq (Lit ''new'') (Rep 1 is_space), ''constructor call''),
      (Seq (Lit ''import'') (Rep 1 is_space), ''import statement''),
      (Seq (Lit ''export'') (Rep 1 is_space), ''export statement''),
      (call_of ''require'', ''require call''),
      (Lit ''process.'', ''process object access''),
      (Lit ''global.'', ''global object access''),
      (Lit ''window.'', ''window object access''),
      (Lit ''document.'', ''document object access''),
      (Lit ''console.'', ''console object access''),
      (Alt (Lit ''setTimeout'') (Lit ''setInterval''), ''timer function''),
      (Alt (Lit ''XMLHttpRequest'') (Lit ''fetch''), ''network request'')]"

text \<open>\<open>/\b[a-zA-Z_$][a-zA-Z0-9_$]*\s*\(/g\<close>, \<open>/\s*\($/\<close> and
  \<open>/\b[a-zA-Z_$][a-zA-Z0-9_$]*\b/g\<close>\<close>

definition call_pattern :: rx where
  "call_pattern =
     Seq WordB (Seq (Cls is_ident_start) (Seq (Rep 0 is_ident_part)
       (Seq (Rep 0 is_space) (Lit ''(''))))"

definition call_tail :: rx where
  "call_tail = Seq (Rep 0 is_space) (Seq (Lit ''('') Eos)"

definition identifier_pattern :: rx where
  "identifier_pattern = Seq WordB (Seq (Cls is_ident_start) (Seq (Rep 0 is_ident_part) WordB))"

text \<open>The names of the calls in a text: \<open>match\<close>, then \<open>replace\<close> on each match.\<close>

definition called_names :: "string \<Rightarrow> string list" where
  "called_names expression =
     map (replace False call_tail (\<lambda>_. [])) (match_all call_pattern expression)"

text \<open>One round of each loop of \<open>validateSecurity\<close>.\<close>

definition forbid :: "string \<Rightarrow> ValidationResult \<Rightarrow> rx \<times> string \<Rightarrow> ValidationResult" where
  "forbid expression result pn =
     (if rx_test True (fst pn) expression
      then result\<lparr>errors := errors result @ [''Forbidden pattern detected: '' @ snd pn],
                   isValid := False\<rparr>
      else result)"

definition check_call :: "ValidationResult \<Rightarrow> string \<Rightarrow> ValidationResult" where
  "check_call result functionName =
     (if \<not> in_SAFE_MATH_FUNCTIONS functionName
      then result\<lparr>errors := errors result @ [''Unknown or forbidden function: '' @ functionName],
                   isValid := False\<rparr>
      else result)"

definition validateSecurity :: "string \<Rightarrow> ValidationResult \<Rightarrow> ValidationResult" where
  "validateSecurity expression result =
     foldl check_call (foldl (forbid expression) result forbiddenPatterns)
       (called_names expression)"

text \<open>
  \<open>analyzeComplexity\<close>. \<open>Math_round\<close> is \<open>Math.round\<close>: the nearest whole number, a
  half going up. The score is computed here in the reals, the source computes it
  in doubles, and the rounded scores agree: the score is a tenth of the length
  plus a whole number, so the exact sum is a whole number of tenths; the double of
  a tenth lies just above a tenth, which keeps the double sum at or above the
  exact sum wherever that is a whole number and a half; everywhere else the exact
  sum is a tenth or more away from the nearest such half, far more than the
  doubles err on a text of any length a machine holds.
\<close>

definition Math_round :: "real \<Rightarrow> int" where
  "Math_round x = \<lfloor>x + 1 / 2\<rfloor>"

definition operator_pattern :: rx where
  "operator_pattern = Cls is_operator"

definition paren_pattern :: rx where
  "paren_pattern = Lit ''(''"

definition common_words :: "string list" where
  "common_words = [''sin'', ''cos'', ''tan'', ''exp'', ''log'', ''pow'']"

definition expensive_words :: "string list" where
  "expensive_words = [''gamma'', ''hypot'']"

definition common_pattern :: rx where
  "common_pattern = words_of common_words"

definition expensive_pattern :: rx where
  "expensive_pattern = words_of expensive_words"

definition score :: "string \<Rightarrow> real" where
  "score expression =
     (let complexity = 0;
          complexity = complexity + real (length expression) * 0.1;
          complexity = complexity + real (length (match_all operator_pattern expression)) * 1;
          complexity = complexity + real (length (match_all paren_pattern expression)) * 2;
          complexity = complexity + real (length (match_all common_pattern expression)) * 3;
          complexity = complexity + real (length (match_all expensive_pattern expression)) * 5
      in complexity)"

definition analyzeComplexity :: "string \<Rightarrow> ValidationResult \<Rightarrow> ValidationResult" where
  "analyzeComplexity expression result =
     (let result = result\<lparr>complexity := Math_round (score expression)\<rparr>;
          result = (if complexity result > 100
                    then result\<lparr>warnings := warnings result @
                           [''High complexity expression may impact performance'']\<rparr>
                    else result)
      in if complexity result > 500
         then result\<lparr>warnings := warnings result @
                [''Extremely complex expression may cause significant performance issues'']\<rparr>
         else result)"

definition extractDependencies :: "string \<Rightarrow> ValidationResult \<Rightarrow> ValidationResult" where
  "extractDependencies expression result =
     (let functionMatches = match_all call_pattern expression;
          result = (if functionMatches \<noteq> []
                    then result\<lparr>functionsUsed :=
                           dedup (map (replace False call_tail (\<lambda>_. [])) functionMatches)\<rparr>
                    else result);
          variableMatches = match_all identifier_pattern expression
      in if variableMatches \<noteq> []
         then result\<lparr>variablesUsed :=
                dedup (filter (\<lambda>m. \<not> in_SAFE_MATH_FUNCTIONS m \<and> m \<notin> set (functionsUsed result))
                         variableMatches)\<rparr>
         else result)"

section \<open>Numbers, compiled units and the host\<close>

text \<open>
  A JavaScript number is a finite value, an infinity or NaN. The finite values
  are taken in the reals: the model does not round them to doubles.
\<close>

datatype number = Finite real | PosInfinity | NegInfinity | NaN

fun isFinite :: "number \<Rightarrow> bool" where
  "isFinite (Finite _) = True"
| "isFinite _ = False"

text \<open>What a call hands back, as \<open>executeFunction\<close> sees it: a value whose \<open>typeof\<close>
  is \<open>"number"\<close>, or any other value.\<close>

datatype jsvalue = Num number | NotNum

text \<open>
  A thrown value, as the source sees it. All the source does with one is to
  convert it to text inside a template literal, \<open>${error}\<close>. The conversion gives
  a text, or it throws in its turn: a symbol, or an object whose \<open>toString\<close>
  throws. \<open>Says\<close> holds the text; \<open>Rethrows\<close> holds what the conversion throws,
  which may be the value itself, so the type is a codatatype.
\<close>

codatatype thrown = Says string | Rethrows thrown

text \<open>A call of host code returns, throws, or never comes back.\<close>

datatype 'a completion = Returns 'a | Throws thrown | Diverges

text \<open>\<open>EvaluationContext\<close>: the properties of the context object, each a number.\<close>

type_synonym EvaluationContext = "(string \<times> number) list"

text \<open>
  A compiled unit. It is taken to touch nothing of the evaluator: neither its
  caches and counters nor the built-in objects the evaluator's own code calls.
\<close>

type_synonym compiled = "EvaluationContext \<Rightarrow> jsvalue completion"

text \<open>
  \<open>new Function("context", body)\<close>. The body is a fixed text around the rewritten
  expression, so the host is a function of that expression: it refuses it with the
  message of its \<open>SyntaxError\<close>, or yields the unit. What it yields is always a
  function, so the source's test of \<open>typeof compiledFn\<close> never fails. Every general
  theorem below holds for all hosts.
\<close>

type_synonym host = "string \<Rightarrow> string + compiled"

section \<open>State: caches, statistics and the console\<close>

record EvaluationStats =
  totalEvaluations :: nat
  successfulEvaluations :: nat
  failedEvaluations :: nat
  averageEvaluationTime :: real
  cacheHitRate :: real
  lastEvaluationTime :: real

datatype ErrorType =
    EXPRESSION_EVALUATION_ERROR
  | CANVAS_INITIALIZATION_ERROR
  | WEBGL_NOT_SUPPORTED
  | PERFORMANCE_DEGRADATION
  | MEMORY_LIMIT_EXCEEDED

record AppError =
  type :: ErrorType
  message :: string
  timestamp :: real
  recoverable :: bool

text \<open>What the evaluator writes to the console: the warning and the error record of
  \<open>handleEvaluationError\<close>, and the warning of \<open>executeFunction\<close> about a slow call.\<close>

datatype console_entry =
    WarnError ErrorType string
  | LogError AppError
  | WarnSlow real

text \<open>
  A \<open>Map\<close> keeps its entries in insertion order: an association list, in which
  \<open>set\<close> overwrites the value of a key that is present and appends a new key.
\<close>

fun Map_set :: "'k \<Rightarrow> 'v \<Rightarrow> ('k \<times> 'v) list \<Rightarrow> ('k \<times> 'v) list" where
  "Map_set k v [] = [(k, v)]"
| "Map_set k v (p # ps) = (if fst p = k then (k, v) # ps else p # Map_set k v ps)"

definition Map_delete :: "'k \<Rightarrow> ('k \<times> 'v) list \<Rightarrow> ('k \<times> 'v) list" where
  "Map_delete k m = filter (\<lambda>p. fst p \<noteq> k) m"

record state =
  expressionCache :: "(string \<times> compiled) list"
  validationCache :: "(string \<times> ValidationResult) list"
  stats :: EvaluationStats
  console :: "console_entry list"

definition initial_stats :: EvaluationStats where
  "initial_stats =
     \<lparr>totalEvaluations = 0, successfulEvaluations = 0, failedEvaluations = 0,
      averageEvaluationTime = 0, cacheHitRate = 0, lastEvaluationTime = 0\<rparr>"

definition initial_state :: state where
  "initial_state =
     \<lparr>expressionCache = [], validationCache = [], stats = initial_stats, console = []\<rparr>"

text \<open>
  The readings of the clocks during one call: \<open>performance.now()\<close> on entry and in
  \<open>updateStats\<close>, the time \<open>executeFunction\<close> measures around the unit, and
  \<open>Date.now()\<close> in \<open>updateStats\<close> and in \<open>handleEvaluationError\<close>.
\<close>

record clock =
  startTime :: real
  statsTime :: real
  executionTime :: real
  dateNow :: real
  errorTime :: real

text \<open>A step of the evaluator ends in a result and a state, in a thrown value and the
  state reached by then, or not at all.\<close>

datatype 'a outcome = Done 'a state | Raised thrown state | Hangs

section \<open>validateExpression\<close>

definition fresh_result :: ValidationResult where
  "fresh_result =
     \<lparr>isValid = True, errors = [], warnings = [], complexity = 0,
      functionsUsed = [], variablesUsed = []\<rparr>"

text \<open>\<open>!expression || !expression.trim()\<close>\<close>

definition blank :: "string \<Rightarrow> bool" where
  "blank expression = (expression = [] \<or> trim expression = [])"

text \<open>The result returned for a blank text.\<close>

definition empty_result :: ValidationResult where
  "empty_result =
     fresh_result\<lparr>errors := errors fresh_result @ [''Expression cannot be empty''],
                   isValid := False\<rparr>"

text \<open>The length check.\<close>

definition check_length :: "string \<Rightarrow> ValidationResult \<Rightarrow> ValidationResult" where
  "check_length expression result =
     (if length expression > MAX_EXPRESSION_LENGTH
      then result\<lparr>errors := errors result @ [''Expression too long (max 2000 characters)''],
                   isValid := False\<rparr>
      else result)"

text \<open>The checks on a text that is not blank, in the order of the source.\<close>

definition checked :: "string \<Rightarrow> ValidationResult" where
  "checked expression =
     (let result = fresh_result;
          result = check_length expression result;
          result = validateSyntax expression result;
          result = validateSecurity expression result;
          result = analyzeComplexity expression result;
          result = extractDependencies expression result
      in result)"

definition validateExpression :: "state \<Rightarrow> string \<Rightarrow> ValidationResult \<times> state" where
  "validateExpression s expression =
     (case map_of (validationCache s) expression of
        Some cached \<Rightarrow> (cached, s)
      | None \<Rightarrow>
          if blank expression then (empty_result, s)
          else
            (let result = checked expression;
                 s = (if length (validationCache s) \<ge> MAX_CACHE_SIZE
                      then s\<lparr>validationCache := []\<rparr> else s)
             in (result, s\<lparr>validationCache := Map_set expression result (validationCache s)\<rparr>)))"

section \<open>compileExpression\<close>

text \<open>
  The chain of \<open>replace\<close> calls, each on the result of the one before. The patterns
  of the four derived constants have no group in the source; their replacement
  does not use one.
\<close>

definition to_Math :: "string \<Rightarrow> string" where
  "to_Math g = ''Math.'' @ g @ ''(''"

definition safeExpression :: "string \<Rightarrow> string" where
  "safeExpression expression =
     (let e = replace True (calls_of [''sin'', ''cos'', ''tan'', ''asin'', ''acos'', ''atan'',
                 ''atan2'', ''sinh'', ''cosh'', ''tanh'', ''asinh'', ''acosh'', ''atanh''])
                to_Math expression;
          e = replace True (calls_of [''exp'', ''exp2'', ''expm1'', ''log'', ''log10'', ''log2'',
                 ''log1p'']) to_Math e;
          e = replace True (calls_of [''pow'', ''sqrt'', ''cbrt'', ''hypot'']) to_Math e;
          e = replace True (calls_of [''abs'', ''sign'', ''floor'', ''ceil'', ''round'', ''trunc'',
                 ''fround'']) to_Math e;
          e = replace True (calls_of [''min'', ''max'']) to_Math e;
          e = replace True (words_of [''PI'', ''pi'']) (\<lambda>_. ''Math.PI'') e;
          e = replace True (words_of [''E'', ''e'']) (\<lambda>_. ''Math.E'') e;
          e = replace True (words_of [''TAU'']) (\<lambda>_. ''(Math.PI * 2)'') e;
          e = replace True (words_of [''PHI'']) (\<lambda>_. ''((1 + Math.sqrt(5)) / 2)'') e;
          e = replace True (words_of [''DEG2RAD'']) (\<lambda>_. ''(Math.PI / 180)'') e;
          e = replace True (words_of [''RAD2DEG'']) (\<lambda>_. ''(180 / Math.PI)'') e
      in e)"

text \<open>A \<open>SyntaxError\<close> of the host is thrown on as an \<open>Error\<close> with a longer message.\<close>

definition compileExpression :: "host \<Rightarrow> string \<Rightarrow> string + compiled" where
  "compileExpression h expression =
     (case h (safeExpression expression) of
        Inl msg \<Rightarrow> Inl (''Error: Failed to compile expression: '' @ msg)
      | Inr compiledFn \<Rightarrow> Inr compiledFn)"

section \<open>evaluate\<close>

definition handleEvaluationError :: "clock \<Rightarrow> ErrorType \<Rightarrow> string \<Rightarrow> state \<Rightarrow> state" where
  "handleEvaluationError clk ty msg s =
     (let error = \<lparr>type = ty, message = msg, timestamp = errorTime clk, recoverable = True\<rparr>
      in s\<lparr>console := console s @ [WarnError ty msg, LogError error]\<rparr>)"

text \<open>\<open>updateStats\<close>. \<open>evaluate\<close> has raised \<open>totalEvaluations\<close> before it calls it, so
  the divisor is at least 1.\<close>

definition updateStats :: "clock \<Rightarrow> bool \<Rightarrow> state \<Rightarrow> state" where
  "updateStats clk fromCache s =
     (let evaluationTime = statsTime clk - startTime clk;
          alpha = 0.1;
          st = stats s;
          st = st\<lparr>averageEvaluationTime :=
                   averageEvaluationTime st * (1 - alpha) + evaluationTime * alpha\<rparr>;
          cacheHits = real (totalEvaluations st) * (cacheHitRate st / 100);
          st = (if fromCache
                then st\<lparr>cacheHitRate := ((cacheHits + 1) / real (totalEvaluations st)) * 100\<rparr>
                else st\<lparr>cacheHitRate := (cacheHits / real (totalEvaluations st)) * 100\<rparr>);
          st = st\<lparr>lastEvaluationTime := dateNow clk\<rparr>
      in s\<lparr>stats := st\<rparr>)"

text \<open>
  \<open>executeFunction\<close>: a value that is not a finite number becomes 0; a slow call is
  reported, not stopped. What the unit throws is converted to text for the
  message of a new \<open>Error\<close>, which is thrown in its place; when the conversion
  throws, what it throws leaves \<open>executeFunction\<close> instead.
\<close>

definition executeFunction ::
  "clock \<Rightarrow> compiled \<Rightarrow> EvaluationContext \<Rightarrow> state \<Rightarrow> number outcome" where
  "executeFunction clk func context s =
     (case func context of
        Diverges \<Rightarrow> Hangs
      | Throws error \<Rightarrow>
          (case error of
             Says text \<Rightarrow> Raised (Says (''Error: Function execution failed: '' @ text)) s
           | Rethrows thrown \<Rightarrow> Raised thrown s)
      | Returns result \<Rightarrow>
          (let s = (if executionTime clk > EVALUATION_TIMEOUT
                    then s\<lparr>console := console s @ [WarnSlow (executionTime clk)]\<rparr>
                    else s)
           in Done (case result of
                      Num n \<Rightarrow> if isFinite n then n else Finite 0
                    | NotNum \<Rightarrow> Finite 0) s))"

definition createCacheKey :: "string \<Rightarrow> string" where
  "createCacheKey expression = trim expression"

text \<open>
  \<open>clearOldestCacheEntries\<close>: the loop deletes the keys of the first entries of a
  snapshot of the cache. Reading an entry past the end of the snapshot is a
  \<open>TypeError\<close> (\<open>undefined_entry\<close> is its text in V8), thrown when every entry of
  the snapshot has been deleted: \<open>Inl\<close> is
  the cache left by then, \<open>Inr\<close> the cache after a loop that ran to its end. The
  product \<open>MAX_CACHE_SIZE * 0.3\<close> is 300 in doubles as in the reals.
\<close>

fun delete_entries ::
  "nat \<Rightarrow> ('k \<times> 'v) list \<Rightarrow> ('k \<times> 'v) list \<Rightarrow> ('k \<times> 'v) list + ('k \<times> 'v) list" where
  "delete_entries 0 entries cache = Inr cache"
| "delete_entries (Suc n) [] cache = Inl cache"
| "delete_entries (Suc n) (e # entries) cache = delete_entries n entries (Map_delete (fst e) cache)"

definition undefined_entry :: string where
  "undefined_entry =
     ''TypeError: Cannot read properties of undefined (reading '' @ [CHR 0x27, CHR ''0'', CHR 0x27] @ '')''"

definition clearOldestCacheEntries :: "state \<Rightarrow> unit outcome" where
  "clearOldestCacheEntries s =
     (let entriesToDelete = nat \<lfloor>real MAX_CACHE_SIZE * 0.3\<rfloor>;
          entries = expressionCache s
      in case delete_entries entriesToDelete entries (expressionCache s) of
           Inl cache \<Rightarrow> Raised (Says undefined_entry) (s\<lparr>expressionCache := cache\<rparr>)
         | Inr cache \<Rightarrow> Done () (s\<lparr>expressionCache := cache\<rparr>))"

definition count_success :: "state \<Rightarrow> state" where
  "count_success s =
     s\<lparr>stats := (stats s)\<lparr>successfulEvaluations := successfulEvaluations (stats s) + 1\<rparr>\<rparr>"

definition count_failure :: "state \<Rightarrow> state" where
  "count_failure s =
     s\<lparr>stats := (stats s)\<lparr>failedEvaluations := failedEvaluations (stats s) + 1\<rparr>\<rparr>"

definition count_total :: "state \<Rightarrow> state" where
  "count_total s =
     s\<lparr>stats := (stats s)\<lparr>totalEvaluations := totalEvaluations (stats s) + 1\<rparr>\<rparr>"

text \<open>The \<open>try\<close> block of \<open>evaluate\<close>.\<close>

definition evaluate_try ::
  "host \<Rightarrow> clock \<Rightarrow> state \<Rightarrow> string \<Rightarrow> EvaluationContext \<Rightarrow> number outcome" where
  "evaluate_try h clk s0 expression context =
     (let (validation, s) = validateExpression s0 expression
      in if \<not> isValid validation
         then Done (Finite 0)
                (handleEvaluationError clk EXPRESSION_EVALUATION_ERROR
                   (''Invalid expression: '' @ join '', '' (errors validation)) s)
         else
           (let cacheKey = createCacheKey expression
            in case map_of (expressionCache s) cacheKey of
                 Some cachedFunction \<Rightarrow>
                   executeFunction clk cachedFunction context (updateStats clk True s)
               | None \<Rightarrow>
                  (case compileExpression h expression of
                     Inl error \<Rightarrow> Raised (Says error) s
                   | Inr compiledFunction \<Rightarrow>
                      (case (if length (expressionCache s) \<ge> MAX_CACHE_SIZE
                             then clearOldestCacheEntries s else Done () s) of
                         Hangs \<Rightarrow> Hangs
                       | Raised error s \<Rightarrow> Raised error s
                       | Done _ s \<Rightarrow>
                          (let s = s\<lparr>expressionCache :=
                                      Map_set cacheKey compiledFunction (expressionCache s)\<rparr>
                           in case executeFunction clk compiledFunction context s of
                                Done result s \<Rightarrow>
                                  Done result (count_success (updateStats clk False s))
                              | Raised error s \<Rightarrow> Raised error s
                              | Hangs \<Rightarrow> Hangs)))))"

text \<open>
  The \<open>catch\<close> block of \<open>evaluate\<close>. The message is built first, by converting what
  was caught to text; when the conversion throws, nothing has been logged or
  counted yet, and what it throws goes to the caller of \<open>evaluate\<close>.
\<close>

definition evaluate_catch :: "clock \<Rightarrow> thrown \<Rightarrow> state \<Rightarrow> number outcome" where
  "evaluate_catch clk error s =
     (case error of
        Says text \<Rightarrow>
          Done (Finite 0)
            (count_failure
               (handleEvaluationError clk EXPRESSION_EVALUATION_ERROR
                  (''Evaluation failed: '' @ text) s))
      | Rethrows thrown \<Rightarrow> Raised thrown s)"

text \<open>\<open>evaluate\<close>: the counter, the \<open>try\<close> block, and the \<open>catch\<close> block.\<close>

definition evaluate ::
  "host \<Rightarrow> clock \<Rightarrow> state \<Rightarrow> string \<Rightarrow> EvaluationContext \<Rightarrow> number outcome" where
  "evaluate h clk s expression context =
     (case evaluate_try h clk (count_total s) expression context of
        Raised error s \<Rightarrow> evaluate_catch clk error s
      | Done result s \<Rightarrow> Done result s
      | Hangs \<Rightarrow> Hangs)"

text \<open>An outcome leaves a state when the call returned or threw.\<close>

definition ended :: "'a outcome \<Rightarrow> state \<Rightarrow> bool" where
  "ended out s' = ((\<exists>v. out = Done v s') \<or> (\<exists>t. out = Raised t s'))"

section \<open>The other operations\<close>

definition clearCache :: "state \<Rightarrow> state" where
  "clearCache s = s\<lparr>expressionCache := [], validationCache := []\<rparr>"

definition resetStats :: "state \<Rightarrow> state" where
  "resetStats s = s\<lparr>stats := initial_stats\<rparr>"

record StatsReport = EvaluationStats +
  successRate :: real
  failureRate :: real
  evaluationsPerSecond :: number

text \<open>
  \<open>getEvaluationStats\<close>; \<open>now\<close> is the reading of \<open>Date.now()\<close>, taken to be the
  same both times the source reads it. The rate of
  evaluations divides by the time since the last one, which is zero when the
  clock has not moved: the quotient is then \<open>Infinity\<close>, or \<open>NaN\<close> when nothing has
  been evaluated.
\<close>

definition getEvaluationStats :: "real \<Rightarrow> state \<Rightarrow> StatsReport" where
  "getEvaluationStats now s =
     (let st = stats s;
          successRate =
            (if totalEvaluations st > 0
             then (real (successfulEvaluations st) / real (totalEvaluations st)) * 100
             else 0);
          failureRate = 100 - successRate;
          timeSinceLastEvaluation = now - lastEvaluationTime st;
          evaluationsPerSecond =
            (if timeSinceLastEvaluation < 10000
             then (if (now - lastEvaluationTime st) / 1000 = 0
                   then (if totalEvaluations st = 0 then NaN else PosInfinity)
                   else Finite (real (totalEvaluations st) / ((now - lastEvaluationTime st) / 1000)))
             else Finite 0)
      in EvaluationStats.extend st
           \<lparr>successRate = successRate, failureRate = failureRate,
            evaluationsPerSecond = evaluationsPerSecond\<rparr>)"

text \<open>The states the evaluator can be in: the start, and what its operations make
  of a state it can be in, also when \<open>evaluate\<close> ends by throwing.\<close>

inductive reachable :: "host \<Rightarrow> state \<Rightarrow> bool" for h :: host where
  start: "reachable h initial_state"
| validated: "reachable h s \<Longrightarrow> reachable h (snd (validateExpression s expression))"
| evaluated: "reachable h s \<Longrightarrow> evaluate h clk s expression context = Done result s'
    \<Longrightarrow> reachable h s'"
| escaped: "reachable h s \<Longrightarrow> evaluate h clk s expression context = Raised thrown s'
    \<Longrightarrow> reachable h s'"
| cleared: "reachable h s \<Longrightarrow> reachable h (clearCache s)"
| reset: "reachable h s \<Longrightarrow> reachable h (resetStats s)"

section \<open>The generated unit on an identifier\<close>

text \<open>
  The body that \<open>compileExpression\<close> hands to the host is
  \<^verbatim>\<open>const { t = 0, time = 0, ...vars } = context || {};
  try { const result = EXPRESSION; return isFinite(result) ? result : 0; }
  catch (error) { return 0; }\<close>
  This section gives the meaning of that body where the expression is a single
  identifier, which is all the concrete runs below need: the bindings the first
  line makes, the lookup of the identifier, the test of the result, and the
  \<open>catch\<close>. The values in play are numbers, \<open>undefined\<close> and plain objects. The
  context is an object, as its type says, so \<open>context || {}\<close> is the context.
\<close>

datatype jsval = Number number | Undefined | Object EvaluationContext

text \<open>The global \<open>isFinite\<close>: \<open>undefined\<close> and a plain object convert to NaN.\<close>

fun global_isFinite :: "jsval \<Rightarrow> bool" where
  "global_isFinite (Number n) = isFinite n"
| "global_isFinite _ = False"

text \<open>
  The bindings of the function scope: the parameter, \<open>t\<close> and \<open>time\<close> with their
  defaults, and \<open>vars\<close>, the object of the remaining properties.
\<close>

definition unit_locals :: "EvaluationContext \<Rightarrow> (string \<times> jsval) list" where
  "unit_locals context =
     (let t = (case map_of context ''t'' of Some v \<Rightarrow> v | None \<Rightarrow> Finite 0);
          time = (case map_of context ''time'' of Some v \<Rightarrow> v | None \<Rightarrow> Finite 0);
          vars = filter (\<lambda>p. fst p \<noteq> ''t'' \<and> fst p \<noteq> ''time'') context
      in [(''context'', Object context), (''t'', Number t), (''time'', Number time),
          (''vars'', Object vars)])"

text \<open>
  Reading an identifier inside the \<open>try\<close> block: \<open>result\<close> is declared there and
  not yet initialised; a name bound in the function scope has its value; any other
  name is looked up in the global object, and is a \<open>ReferenceError\<close> when the
  global object has no such property.
\<close>

definition resolve :: "(string \<times> jsval) list \<Rightarrow> (string \<times> jsval) list \<Rightarrow> string \<Rightarrow> jsval completion" where
  "resolve globals locals name =
     (if name = ''result'' then Throws (Says ''ReferenceError'')
      else case map_of locals name of
             Some v \<Rightarrow> Returns v
           | None \<Rightarrow>
              (case map_of globals name of
                 Some v \<Rightarrow> Returns v
               | None \<Rightarrow> Throws (Says ''ReferenceError'')))"

definition identifier_unit :: "(string \<times> jsval) list \<Rightarrow> string \<Rightarrow> compiled" where
  "identifier_unit globals name context =
     (case resolve globals (unit_locals context) name of
        Returns result \<Rightarrow>
          (if global_isFinite result
           then Returns (case result of Number n \<Rightarrow> Num n | _ \<Rightarrow> NotNum)
           else Returns (Num (Finite 0)))
      | Throws error \<Rightarrow> Returns (Num (Finite 0))
      | Diverges \<Rightarrow> Diverges)"

text \<open>The reserved words, which are not identifiers, and the two names strict code
  treats specially.\<close>

definition reserved_words :: "string list" where
  "reserved_words =
     [''break'', ''case'', ''catch'', ''class'', ''const'', ''continue'', ''debugger'',
      ''default'', ''delete'', ''do'', ''else'', ''enum'', ''export'', ''extends'', ''false'',
      ''finally'', ''for'', ''function'', ''if'', ''import'', ''in'', ''instanceof'', ''new'',
      ''null'', ''return'', ''super'', ''switch'', ''this'', ''throw'', ''true'', ''try'',
      ''typeof'', ''var'', ''void'', ''while'', ''with'', ''yield'', ''let'', ''static'',
      ''implements'', ''interface'', ''package'', ''private'', ''protected'', ''public'',
      ''await'', ''arguments'', ''eval'']"

definition is_identifier :: "string \<Rightarrow> bool" where
  "is_identifier name =
     (case name of
        [] \<Rightarrow> False
      | c # cs \<Rightarrow> is_ident_start c \<and> list_all is_ident_part cs \<and> name \<notin> set reserved_words)"

text \<open>
  A host that gives an identifier its unit and leaves every other text to \<open>rest\<close>.
  \<open>globals\<close> lists the properties of the global object.
\<close>

definition identifier_host :: "(string \<times> jsval) list \<Rightarrow> host \<Rightarrow> host" where
  "identifier_host globals rest text =
     (if is_identifier text then Inr (identifier_unit globals text) else rest text)"

text \<open>The value properties every global object has.\<close>

definition standard_globals :: "(string \<times> jsval) list" where
  "standard_globals =
     [(''undefined'', Undefined), (''NaN'', Number NaN), (''Infinity'', Number PosInfinity)]"

text \<open>
  The hosts of the concrete runs. \<open>no_host\<close> refuses every text, with an empty
  message. \<open>run_host\<close> knows identifiers, over the standard globals, and refuses
  every other text; the runs below hand it identifiers and the text \<open>t t\<close>, which is
  no expression.
\<close>

definition no_host :: host where
  "no_host text = Inl []"

definition run_host :: host where
  "run_host = identifier_host standard_globals no_host"

definition run_clock :: clock where
  "run_clock = \<lparr>startTime = 0, statsTime = 1, executionTime = 1, dateNow = 1000, errorTime = 1000\<rparr>"

section \<open>Invariants and sample states\<close>

text \<open>
  What holds of the two caches in every state the evaluator can be in: a cached
  validation result belongs to a text that is not blank and is the result of the
  checks on that text; neither cache is over capacity; the keys of the compiled
  cache are distinct, as the keys of a \<open>Map\<close> are.
\<close>

definition caches_ok :: "(string \<times> ValidationResult) list \<Rightarrow> (string \<times> compiled) list \<Rightarrow> bool" where
  "caches_ok vc ec =
     ((\<forall>(k, r) \<in> set vc. \<not> blank k \<and> r = checked k) \<and>
      length vc \<le> MAX_CACHE_SIZE \<and> length ec \<le> MAX_CACHE_SIZE \<and> distinct (map fst ec))"

definition cache_inv :: "state \<Rightarrow> bool" where
  "cache_inv s = caches_ok (validationCache s) (expressionCache s)"

text \<open>Caches at capacity: the entries of the thousand texts \<open>a\<close>, \<open>aa\<close>, \<open>aaa\<close>, ...\<close>

definition full_cache :: "(string \<times> compiled) list" where
  "full_cache =
     map (\<lambda>n. (replicate (Suc n) (CHR ''a''),
                identifier_unit standard_globals (replicate (Suc n) (CHR ''a'')))) [0 ..< 1000]"

definition full_validations :: "(string \<times> ValidationResult) list" where
  "full_validations =
     map (\<lambda>n. (replicate (Suc n) (CHR ''a''), checked (replicate (Suc n) (CHR ''a'')))) [0 ..< 1000]"

section \<open>Notions used in the statements\<close>












text \<open>Sample contexts.\<close>

definition tt0 :: EvaluationContext where
  "tt0 = [(''t'', Finite 0), (''time'', Finite 0)]"

definition x5 :: EvaluationContext where
  "x5 = [(''t'', Finite 0), (''time'', Finite 0), (''x'', Finite 5)]"


section \<open>The deny-list in the words of the specification\<close>










section \<open>The complexity score in the words of the specification\<close>

text \<open>
  A word occurs whole at a position when the text after the position begins with
  it, no word character stands just before the position, and none follows the
  word. \<open>b\<close> is the text before the position, latest character first.
\<close>

definition word_here :: "string \<Rightarrow> string \<Rightarrow> string \<Rightarrow> bool" where
  "word_here w b a =
     (take (length w) a = w \<and> \<not> word_next b \<and> \<not> word_next (drop (length w) a))"

text \<open>The number of positions of a text at which one of the words occurs whole.\<close>

fun whole_words :: "string list \<Rightarrow> string \<Rightarrow> string \<Rightarrow> nat" where
  "whole_words ws b [] = 0"
| "whole_words ws b (c # cs) =
     (if \<exists>w \<in> set ws. word_here w b (c # cs) then 1 else 0) + whole_words ws (c # b) cs"

definition whole_word_count :: "string list \<Rightarrow> string \<Rightarrow> nat" where
  "whole_word_count ws e = whole_words ws [] e"

text \<open>
  The score as the specification words it: a tenth per character, 1 per operator
  symbol (\<open>+ - * / ^ %\<close>), 2 per opening parenthesis, 3 per whole-word occurrence
  of a common function name and 5 per whole-word occurrence of an expensive one.
\<close>

definition spec_score :: "string \<Rightarrow> real" where
  "spec_score e =
     0.1 * real (length e) +
     1 * real (length (filter is_operator e)) +
     2 * real (count_list e (CHR ''('')) +
     3 * real (whole_word_count [''sin'', ''cos'', ''tan'', ''exp'', ''log'', ''pow''] e) +
     5 * real (whole_word_count [''gamma'', ''hypot''] e)"

text \<open>Lists of words, none empty, made of word characters.\<close>

definition words_ok :: "string list \<Rightarrow> bool" where
  "words_ok ws = (ws \<noteq> [] \<and> list_all (\<lambda>w. w \<noteq> [] \<and> list_all is_word w) ws)"

section \<open>Properties\<close>

subsection \<open>The three ways of validateExpression\<close>

lemma validate_cached:
  "map_of (validationCache s) e = Some r \<Longrightarrow> validateExpression s e = (r, s)"
  by (simp add: validateExpression_def)

lemma validate_blank:
  "map_of (validationCache s) e = None \<Longrightarrow> blank e \<Longrightarrow> validateExpression s e = (empty_result, s)"
  by (simp add: validateExpression_def)

lemma validate_fresh:
  "map_of (validationCache s) e = None \<Longrightarrow> \<not> blank e \<Longrightarrow>
     validateExpression s e =
       (checked e,
        s\<lparr>validationCache :=
             Map_set e (checked e)
               (if MAX_CACHE_SIZE \<le> length (validationCache s) then [] else validationCache s)\<rparr>)"
  by (simp add: validateExpression_def Let_def)

lemma validate_frame:
  "expressionCache (snd (validateExpression s e)) = expressionCache s"
  "stats (snd (validateExpression s e)) = stats s"
  "console (snd (validateExpression s e)) = console s"
  by (simp_all add: validateExpression_def Let_def split: option.splits)

subsection \<open>Maps in insertion order\<close>

lemma Map_set_new: "map_of m k = None \<Longrightarrow> Map_set k v m = m @ [(k, v)]"
  by (induction m) (auto split: if_splits)

lemma Map_set_length: "length (Map_set k v m) \<le> Suc (length m)"
  by (induction m) auto

lemma Map_set_set: "set (Map_set k v m) \<subseteq> insert (k, v) (set m)"
  by (induction m) auto

lemma Map_set_keys: "fst ` set (Map_set k v m) = insert k (fst ` set m)"
  by (induction m) auto

lemma Map_set_distinct: "distinct (map fst m) \<Longrightarrow> distinct (map fst (Map_set k v m))"
  by (induction m) (auto simp: Map_set_keys)

lemma Map_set_lookup: "map_of (Map_set k v m) k = Some v"
  by (induction m) auto

lemma Map_delete_fresh: "k \<notin> fst ` set m \<Longrightarrow> Map_delete k m = m"
  by (induction m) (auto simp: Map_delete_def)

lemma delete_entries_drop:
  "distinct (map fst es) \<Longrightarrow> n \<le> length es \<Longrightarrow> delete_entries n es es = Inr (drop n es)"
proof (induction n arbitrary: es)
  case 0
  then show ?case by simp
next
  case (Suc n)
  then obtain e es' where es: "es = e # es'" by (cases es) auto
  with Suc.prems have fresh: "fst e \<notin> fst ` set es'" and d: "distinct (map fst es')" and n: "n \<le> length es'"
    by auto
  have "Map_delete (fst e) (e # es') = es'"
    using Map_delete_fresh[OF fresh] by (simp add: Map_delete_def)
  then show ?case using Suc.IH[OF d n] es by simp
qed

lemma entries_to_delete: "nat \<lfloor>real MAX_CACHE_SIZE * 0.3\<rfloor> = 300"
  by (simp add: MAX_CACHE_SIZE_def)

lemma clearOldest_full:
  "distinct (map fst (expressionCache s)) \<Longrightarrow> MAX_CACHE_SIZE \<le> length (expressionCache s) \<Longrightarrow>
     clearOldestCacheEntries s = Done () (s\<lparr>expressionCache := drop 300 (expressionCache s)\<rparr>)"
  by (simp add: clearOldestCacheEntries_def entries_to_delete delete_entries_drop MAX_CACHE_SIZE_def)


subsection \<open>The invariant of the caches\<close>

lemma validate_inv: "cache_inv s \<Longrightarrow> cache_inv (snd (validateExpression s e))"
proof -
  assume inv: "cache_inv s"
  show ?thesis
  proof (cases "map_of (validationCache s) e")
    case (Some r)
    then show ?thesis using inv by (simp add: validate_cached)
  next
    case None
    show ?thesis
    proof (cases "blank e")
      case True
      then show ?thesis using inv None by (simp add: validate_blank)
    next
      case False
      have len: "length (Map_set e (checked e) vc) \<le> MAX_CACHE_SIZE" if "length vc < MAX_CACHE_SIZE" for vc
        using Map_set_length[of e "checked e" vc] that by simp
      have one: "length (Map_set e (checked e) []) \<le> MAX_CACHE_SIZE"
        by (simp add: MAX_CACHE_SIZE_def)
      have mem: "\<forall>(k, r) \<in> set (Map_set e (checked e) vc). \<not> blank k \<and> r = checked k"
        if "\<forall>(k, r) \<in> set vc. \<not> blank k \<and> r = checked k" for vc
        using Map_set_set[of e "checked e" vc] that False by auto
      show ?thesis
        using inv None False len[of "validationCache s"] one mem[of "validationCache s"] mem[of "[]"]
        by (auto simp: validate_fresh cache_inv_def caches_ok_def)
    qed
  qed
qed

lemma cache_inv_frame:
  "validationCache s' = validationCache s \<Longrightarrow> expressionCache s' = expressionCache s \<Longrightarrow>
     cache_inv s' = cache_inv s"
  by (simp add: cache_inv_def)

lemma insert_inv:
  assumes "cache_inv s"
  shows "cache_inv (s\<lparr>expressionCache :=
           Map_set k f (if MAX_CACHE_SIZE \<le> length (expressionCache s)
                        then drop 300 (expressionCache s) else expressionCache s)\<rparr>)"
proof -
  let ?ec = "expressionCache s"
  have d: "distinct (map fst ?ec)" and l: "length ?ec \<le> MAX_CACHE_SIZE"
    using assms by (auto simp: cache_inv_def caches_ok_def)
  have d': "distinct (map fst (drop 300 ?ec))" using d by (simp add: drop_map[symmetric])
  have "length (Map_set k f (drop 300 ?ec)) \<le> MAX_CACHE_SIZE"
    using Map_set_length[of k f "drop 300 ?ec"] l by (simp add: MAX_CACHE_SIZE_def)
  moreover have "length (Map_set k f ?ec) \<le> MAX_CACHE_SIZE" if "\<not> MAX_CACHE_SIZE \<le> length ?ec"
    using Map_set_length[of k f ?ec] that by simp
  ultimately show ?thesis
    using assms d d' by (auto simp: cache_inv_def caches_ok_def Map_set_distinct)
qed

subsection \<open>The paths of evaluate\<close>

lemma validate_count_total:
  "validateExpression (count_total s) e =
     (fst (validateExpression s e), count_total (snd (validateExpression s e)))"
  by (simp add: validateExpression_def count_total_def Let_def split: option.splits)

lemma execute_Done:
  "executeFunction clk f ctx s = Done r s' \<Longrightarrow>
     isFinite r \<and> validationCache s' = validationCache s \<and> expressionCache s' = expressionCache s \<and>
     stats s' = stats s \<and>
     console s' = console s @ (if executionTime clk > EVALUATION_TIMEOUT then [WarnSlow (executionTime clk)] else []) \<and>
     (\<exists>v. f ctx = Returns v \<and> r = (case v of Num n \<Rightarrow> if isFinite n then n else Finite 0 | NotNum \<Rightarrow> Finite 0))"
  by (auto simp: executeFunction_def Let_def split: completion.splits thrown.splits jsvalue.splits if_splits)

lemma execute_Raised:
  "executeFunction clk f ctx s = Raised err s' \<Longrightarrow>
     s' = s \<and>
     (\<exists>x. f ctx = Throws x \<and>
        (case x of Says text \<Rightarrow> err = Says (''Error: Function execution failed: '' @ text)
                 | Rethrows thrown \<Rightarrow> err = thrown))"
  by (auto simp: executeFunction_def Let_def split: completion.splits thrown.splits if_splits)

lemma catch_frame:
  "evaluate_catch clk err s = Done v s' \<or> evaluate_catch clk err s = Raised t s' \<Longrightarrow>
     expressionCache s' = expressionCache s \<and> validationCache s' = validationCache s"
  by (auto simp: evaluate_catch_def handleEvaluationError_def count_failure_def split: thrown.splits)

lemma catch_not_Hangs: "evaluate_catch clk err s \<noteq> Hangs"
  by (simp add: evaluate_catch_def split: thrown.splits)

lemma execute_Hangs:
  "executeFunction clk f ctx s = Hangs \<longleftrightarrow> f ctx = Diverges"
  by (auto simp: executeFunction_def Let_def split: completion.splits thrown.splits if_splits)

lemma evaluate_invalid:
  assumes "\<not> isValid (fst (validateExpression s e))"
  shows "evaluate h clk s e ctx =
           Done (Finite 0)
             (handleEvaluationError clk EXPRESSION_EVALUATION_ERROR
                (''Invalid expression: '' @ join '', '' (errors (fst (validateExpression s e))))
                (count_total (snd (validateExpression s e))))"
  using assms by (simp add: evaluate_def evaluate_try_def validate_count_total)

lemma count_total_caches:
  "expressionCache (count_total s) = expressionCache s"
  "validationCache (count_total s) = validationCache s"
  "console (count_total s) = console s"
  by (simp_all add: count_total_def)

lemma evaluate_hit:
  assumes "isValid (fst (validateExpression s e))"
    and "map_of (expressionCache s) (trim e) = Some f"
  shows "evaluate h clk s e ctx =
           (case executeFunction clk f ctx (updateStats clk True (count_total (snd (validateExpression s e)))) of
              Done r s' \<Rightarrow> Done r s'
            | Raised err s' \<Rightarrow> evaluate_catch clk err s'
            | Hangs \<Rightarrow> Hangs)"
  using assms
  by (simp add: evaluate_def evaluate_try_def validate_count_total createCacheKey_def
      count_total_caches validate_frame split: outcome.splits)

lemma evaluate_compile_fail:
  assumes "isValid (fst (validateExpression s e))"
    and "map_of (expressionCache s) (trim e) = None"
    and "compileExpression h e = Inl err"
  shows "evaluate h clk s e ctx =
           Done (Finite 0) (count_failure (handleEvaluationError clk EXPRESSION_EVALUATION_ERROR
                   (''Evaluation failed: '' @ err) (count_total (snd (validateExpression s e)))))"
  using assms
  by (simp add: evaluate_def evaluate_try_def validate_count_total createCacheKey_def
      count_total_caches validate_frame evaluate_catch_def)

lemma evaluate_miss:
  assumes "isValid (fst (validateExpression s e))"
    and "map_of (expressionCache s) (trim e) = None"
    and "compileExpression h e = Inr f"
    and "distinct (map fst (expressionCache s))"
  shows "evaluate h clk s e ctx =
           (case executeFunction clk f ctx
                   ((count_total (snd (validateExpression s e)))
                      \<lparr>expressionCache :=
                         Map_set (trim e) f
                           (if MAX_CACHE_SIZE \<le> length (expressionCache s)
                            then drop 300 (expressionCache s) else expressionCache s)\<rparr>) of
              Done r s' \<Rightarrow> Done r (count_success (updateStats clk False s'))
            | Raised err s' \<Rightarrow> evaluate_catch clk err s'
            | Hangs \<Rightarrow> Hangs)"
proof -
  let ?s2 = "count_total (snd (validateExpression s e))"
  have ec: "expressionCache ?s2 = expressionCache s"
    by (simp add: count_total_caches validate_frame)
  have full: "clearOldestCacheEntries ?s2 = Done () (?s2\<lparr>expressionCache := drop 300 (expressionCache s)\<rparr>)"
    if "MAX_CACHE_SIZE \<le> length (expressionCache s)"
    using clearOldest_full[of ?s2] that assms(4) ec by simp
  show ?thesis
  proof (cases "MAX_CACHE_SIZE \<le> length (expressionCache s)")
    case True
    then show ?thesis
      using assms(1,2,3) full ec
      by (simp add: evaluate_def evaluate_try_def validate_count_total createCacheKey_def
          split: outcome.splits)
  next
    case False
    then show ?thesis
      using assms(1,2,3) ec
      by (simp add: evaluate_def evaluate_try_def validate_count_total createCacheKey_def
          split: outcome.splits)
  qed
qed

subsection \<open>What the bookkeeping leaves alone\<close>

lemma handle_caches:
  "expressionCache (handleEvaluationError clk ty msg s) = expressionCache s"
  "validationCache (handleEvaluationError clk ty msg s) = validationCache s"
  "stats (handleEvaluationError clk ty msg s) = stats s"
  by (simp_all add: handleEvaluationError_def)

lemma updateStats_caches:
  "expressionCache (updateStats clk b s) = expressionCache s"
  "validationCache (updateStats clk b s) = validationCache s"
  "console (updateStats clk b s) = console s"
  by (simp_all add: updateStats_def Let_def)

lemma count_success_caches:
  "expressionCache (count_success s) = expressionCache s"
  "validationCache (count_success s) = validationCache s"
  "console (count_success s) = console s"
  by (simp_all add: count_success_def)

lemma count_failure_caches:
  "expressionCache (count_failure s) = expressionCache s"
  "validationCache (count_failure s) = validationCache s"
  "console (count_failure s) = console s"
  by (simp_all add: count_failure_def)

lemmas frame_simps = handle_caches updateStats_caches count_success_caches count_failure_caches
  count_total_caches validate_frame

subsection \<open>Every reachable state satisfies the invariant\<close>

lemma ended_simps:
  "ended (Done v s) s' \<longleftrightarrow> s' = s" "ended (Raised t s) s' \<longleftrightarrow> s' = s" "\<not> ended Hangs s'"
  by (auto simp: ended_def)

lemma catch_ended:
  "ended (evaluate_catch clk err s) s' \<Longrightarrow>
     expressionCache s' = expressionCache s \<and> validationCache s' = validationCache s"
  using catch_frame by (fastforce simp: ended_def)

lemma run_inv:
  assumes "cache_inv s0"
    and "ended (case executeFunction clk f ctx s0 of
              Done r s' \<Rightarrow> Done r (g s')
            | Raised err s' \<Rightarrow> evaluate_catch clk err s'
            | Hangs \<Rightarrow> Hangs) s1"
    and "\<And>x. cache_inv (g x) = cache_inv x"
  shows "cache_inv s1"
proof (cases "executeFunction clk f ctx s0")
  case (Done r s')
  then have "cache_inv s'" using execute_Done[OF Done] assms(1) by (simp add: cache_inv_def)
  then show ?thesis using assms(2,3) Done by (simp add: ended_simps)
next
  case (Raised err s')
  then have "s' = s0" using execute_Raised by blast
  then have "ended (evaluate_catch clk err s0) s1" using assms(2) Raised by simp
  then show ?thesis using catch_ended assms(1) by (fastforce simp: cache_inv_def)
next
  case Hangs
  then show ?thesis using assms(2) by (simp add: ended_simps)
qed

lemma evaluate_inv:
  assumes inv: "cache_inv s" and ev: "ended (evaluate h clk s e ctx) s'"
  shows "cache_inv s'"
proof -
  let ?s2 = "count_total (snd (validateExpression s e))"
  have inv2: "cache_inv ?s2"
    using validate_inv[OF inv, of e] by (simp add: cache_inv_def count_total_caches)
  have d: "distinct (map fst (expressionCache s))"
    using inv by (simp add: cache_inv_def caches_ok_def)
  show ?thesis
  proof (cases "isValid (fst (validateExpression s e))")
    case False
    then show ?thesis
      using ev inv2 by (auto simp: evaluate_invalid ended_simps cache_inv_def frame_simps)
  next
    case valid: True
    show ?thesis
    proof (cases "map_of (expressionCache s) (trim e)")
      case (Some f)
      have "cache_inv (updateStats clk True ?s2)"
        using inv2 by (simp add: cache_inv_def frame_simps)
      then show ?thesis
        using ev[unfolded evaluate_hit[OF valid Some]]
        by (rule run_inv) simp
    next
      case None
      show ?thesis
      proof (cases "compileExpression h e")
        case (Inl err)
        then show ?thesis
          using ev inv2
          by (auto simp: evaluate_compile_fail[OF valid None Inl] ended_simps cache_inv_def frame_simps)
      next
        case (Inr f)
        have ec: "expressionCache ?s2 = expressionCache s"
          by (simp add: frame_simps)
        have "cache_inv (?s2\<lparr>expressionCache :=
                 Map_set (trim e) f (if MAX_CACHE_SIZE \<le> length (expressionCache s)
                            then drop 300 (expressionCache s) else expressionCache s)\<rparr>)"
          using insert_inv[OF inv2, of "trim e" f] unfolding ec .
        then show ?thesis
          using ev[unfolded evaluate_miss[OF valid None Inr d]]
          by (rule run_inv) (simp_all add: cache_inv_def frame_simps)
      qed
    qed
  qed
qed

lemma reachable_inv: "reachable h s \<Longrightarrow> cache_inv s"
proof (induction rule: reachable.induct)
  case start
  show ?case by (simp add: cache_inv_def caches_ok_def initial_state_def)
next
  case (validated s expression)
  then show ?case by (simp add: validate_inv)
next
  case (evaluated s clk expression ctx result s')
  then show ?case
    using evaluate_inv[where s=s and h=h and clk=clk and e=expression and ctx=ctx and s'=s']
    by (simp add: ended_simps)
next
  case (escaped s clk expression ctx thrown s')
  then show ?case
    using evaluate_inv[where s=s and h=h and clk=clk and e=expression and ctx=ctx and s'=s']
    by (simp add: ended_simps)
next
  case (cleared s)
  show ?case by (simp add: cache_inv_def caches_ok_def clearCache_def)
next
  case (reset s)
  then show ?case by (simp add: cache_inv_def resetStats_def)
qed


subsection \<open>Capacity of the caches\<close>

lemma evaluate_miss_cache:
  assumes d: "distinct (map fst (expressionCache s))"
    and valid: "isValid (fst (validateExpression s e))"
    and miss: "map_of (expressionCache s) (trim e) = None"
    and comp: "compileExpression h e = Inr f"
  shows "case evaluate h clk s e ctx of
           Done v s' \<Rightarrow> expressionCache s' =
              (if MAX_CACHE_SIZE \<le> length (expressionCache s)
               then drop 300 (expressionCache s) else expressionCache s) @ [(trim e, f)]
         | Raised err s' \<Rightarrow> expressionCache s' =
              (if MAX_CACHE_SIZE \<le> length (expressionCache s)
               then drop 300 (expressionCache s) else expressionCache s) @ [(trim e, f)]
         | Hangs \<Rightarrow> f ctx = Diverges"
proof -
  let ?ec = "if MAX_CACHE_SIZE \<le> length (expressionCache s)
               then drop 300 (expressionCache s) else expressionCache s"
  let ?s3 = "(count_total (snd (validateExpression s e)))\<lparr>expressionCache := Map_set (trim e) f ?ec\<rparr>"
  have "trim e \<notin> fst ` set (expressionCache s)"
    using miss by (simp add: map_of_eq_None_iff)
  then have "trim e \<notin> fst ` set ?ec"
    using set_drop_subset[of 300 "expressionCache s"] by auto
  then have new: "Map_set (trim e) f ?ec = ?ec @ [(trim e, f)]"
    by (intro Map_set_new) (simp add: map_of_eq_None_iff)
  show ?thesis
  proof (cases "executeFunction clk f ctx ?s3")
    case (Done r s')
    then show ?thesis
      using execute_Done[OF Done] new
      by (simp add: evaluate_miss[OF valid miss comp d] frame_simps)
  next
    case (Raised err s')
    then have s3: "s' = ?s3" using execute_Raised[OF Raised] by simp
    have ev: "evaluate h clk s e ctx = evaluate_catch clk err ?s3"
      using Raised s3 by (simp add: evaluate_miss[OF valid miss comp d])
    show ?thesis
    proof (cases "evaluate_catch clk err ?s3")
      case (Done v x)
      then show ?thesis using catch_frame[of clk err ?s3 v x] new ev by simp
    next
      case (Raised t x)
      then show ?thesis using catch_frame[of clk err ?s3 _ x t] new ev by simp
    next
      case Hangs
      then show ?thesis using catch_not_Hangs by blast
    qed
  next
    case Hangs
    then show ?thesis
      using execute_Hangs[of clk f ctx ?s3]
      by (simp add: evaluate_miss[OF valid miss comp d])
  qed
qed

text \<open>
  C5. In every reachable state each cache holds at most \<open>MAX_CACHE_SIZE\<close> entries.
  A validation cache at capacity is emptied before a new result goes in, so the
  new entry is then its only one. When the compiled cache is at capacity,
  \<open>evaluate\<close> on a valid text it has no unit for drops the 300 oldest entries, in
  insertion order, and appends the new unit, whether the call then returns or
  throws.
\<close>

theorem cache_capacity:
  "(reachable h s \<longrightarrow>
      length (validationCache s) \<le> MAX_CACHE_SIZE \<and> length (expressionCache s) \<le> MAX_CACHE_SIZE) \<and>
   (MAX_CACHE_SIZE \<le> length (validationCache s) \<and> map_of (validationCache s) e = None \<and> \<not> blank e \<longrightarrow>
      validationCache (snd (validateExpression s e)) = [(e, fst (validateExpression s e))]) \<and>
   (MAX_CACHE_SIZE \<le> length (expressionCache s) \<and> distinct (map fst (expressionCache s)) \<and>
    isValid (fst (validateExpression s e)) \<and> map_of (expressionCache s) (trim e) = None \<and>
    compileExpression h e = Inr f \<longrightarrow>
      (case evaluate h clk s e ctx of
         Done v s' \<Rightarrow> expressionCache s' = drop 300 (expressionCache s) @ [(trim e, f)]
       | Raised err s' \<Rightarrow> expressionCache s' = drop 300 (expressionCache s) @ [(trim e, f)]
       | Hangs \<Rightarrow> f ctx = Diverges))"
proof -
  have bounds: "length (validationCache s) \<le> MAX_CACHE_SIZE \<and> length (expressionCache s) \<le> MAX_CACHE_SIZE"
    if "reachable h s"
    using reachable_inv[OF that] by (simp add: cache_inv_def caches_ok_def)
  have wipe: "validationCache (snd (validateExpression s e)) = [(e, fst (validateExpression s e))]"
    if "MAX_CACHE_SIZE \<le> length (validationCache s) \<and> map_of (validationCache s) e = None \<and> \<not> blank e"
    using that by (simp add: validate_fresh)
  have evict: "case evaluate h clk s e ctx of
         Done v s' \<Rightarrow> expressionCache s' = drop 300 (expressionCache s) @ [(trim e, f)]
       | Raised err s' \<Rightarrow> expressionCache s' = drop 300 (expressionCache s) @ [(trim e, f)]
       | Hangs \<Rightarrow> f ctx = Diverges"
    if "MAX_CACHE_SIZE \<le> length (expressionCache s) \<and> distinct (map fst (expressionCache s)) \<and>
        isValid (fst (validateExpression s e)) \<and> map_of (expressionCache s) (trim e) = None \<and>
        compileExpression h e = Inr f"
    using evaluate_miss_cache[where s=s and e=e and h=h and f=f and clk=clk and ctx=ctx] that
    by (auto split: outcome.splits)
  from bounds wipe evict show ?thesis by blast
qed

lemma checked_t: "isValid (checked ''t'')" by code_simp
lemma trim_t: "trim ''t'' = ''t''" by code_simp
lemma not_blank_t: "\<not> blank ''t''" by code_simp
lemma safe_t: "safeExpression ''t'' = ''t''" by code_simp
lemma ident_t: "is_identifier ''t''" by code_simp
lemma compile_t: "compileExpression run_host ''t'' = Inr (identifier_unit standard_globals ''t'')"
  by (simp add: compileExpression_def run_host_def identifier_host_def safe_t ident_t)


lemma full_cache_facts:
  "length full_cache = 1000" "distinct (map fst full_cache)" "map_of full_cache ''t'' = None"
  by (auto simp: full_cache_def distinct_map comp_def inj_on_def map_of_eq_None_iff)

lemma full_validations_facts:
  "length full_validations = 1000" "map_of full_validations ''t'' = None"
  by (auto simp: full_validations_def map_of_eq_None_iff)

theorem cache_capacity_witness:
  "(length (validationCache (snd (validateExpression initial_state ''t''))) \<le> MAX_CACHE_SIZE \<and>
    length (expressionCache (snd (validateExpression initial_state ''t''))) \<le> MAX_CACHE_SIZE) \<and>
   validationCache (snd (validateExpression (initial_state\<lparr>validationCache := full_validations\<rparr>) ''t'')) =
     [(''t'', fst (validateExpression (initial_state\<lparr>validationCache := full_validations\<rparr>) ''t''))] \<and>
   (case evaluate run_host run_clock (initial_state\<lparr>expressionCache := full_cache\<rparr>) ''t'' [] of
      Done v s' \<Rightarrow> expressionCache s' =
        drop 300 (expressionCache (initial_state\<lparr>expressionCache := full_cache\<rparr>)) @
          [(trim ''t'', identifier_unit standard_globals ''t'')]
    | Raised err s' \<Rightarrow> expressionCache s' =
        drop 300 (expressionCache (initial_state\<lparr>expressionCache := full_cache\<rparr>)) @
          [(trim ''t'', identifier_unit standard_globals ''t'')]
    | Hangs \<Rightarrow> identifier_unit standard_globals ''t'' [] = Diverges)"
proof -
  let ?sv = "initial_state\<lparr>validationCache := full_validations\<rparr>"
  let ?se = "initial_state\<lparr>expressionCache := full_cache\<rparr>"
  have r: "reachable run_host (snd (validateExpression initial_state ''t''))"
    by (intro reachable.intros)
  have v: "MAX_CACHE_SIZE \<le> length (validationCache ?sv) \<and> map_of (validationCache ?sv) ''t'' = None \<and> \<not> blank ''t''"
    by (simp add: full_validations_facts MAX_CACHE_SIZE_def not_blank_t)
  have "validateExpression ?se ''t'' = (checked ''t'', ?se\<lparr>validationCache := [(''t'', checked ''t'')]\<rparr>)"
    by (simp add: validate_fresh not_blank_t initial_state_def MAX_CACHE_SIZE_def)
  then have e: "MAX_CACHE_SIZE \<le> length (expressionCache ?se) \<and> distinct (map fst (expressionCache ?se)) \<and>
    isValid (fst (validateExpression ?se ''t'')) \<and> map_of (expressionCache ?se) (trim ''t'') = None \<and>
    compileExpression run_host ''t'' = Inr (identifier_unit standard_globals ''t'')"
    by (simp add: full_cache_facts MAX_CACHE_SIZE_def checked_t trim_t compile_t)
  show ?thesis
    using r v e
      cache_capacity[where h=run_host and s="snd (validateExpression initial_state ''t'')"]
      cache_capacity[where s="?sv" and e="''t''"]
      cache_capacity[where h=run_host and s="?se" and e="''t''"
        and f="identifier_unit standard_globals ''t''" and clk=run_clock and ctx="[]"]
    by blast
qed

subsection \<open>Blank texts and the validation cache\<close>

text \<open>
  C10. A blank text, empty or all white space, never becomes a key of the validation
  cache: in every reachable state no key of that cache is blank, and validating a
  blank text returns the result for blank texts and leaves the state as it was, so
  each such call computes the result again.
\<close>

theorem blank_never_cached:
  "reachable h s \<Longrightarrow>
     (\<forall>k \<in> fst ` set (validationCache s). \<not> blank k) \<and>
     (blank e \<longrightarrow> validateExpression s e = (empty_result, s))"
proof -
  assume "reachable h s"
  then have inv: "cache_inv s" by (rule reachable_inv)
  then have keys: "\<forall>k \<in> fst ` set (validationCache s). \<not> blank k"
    by (auto simp: cache_inv_def caches_ok_def)
  have "validateExpression s e = (empty_result, s)" if "blank e"
  proof -
    have "e \<notin> fst ` set (validationCache s)" using keys that by blast
    then have "map_of (validationCache s) e = None" by (simp add: map_of_eq_None_iff)
    then show ?thesis using that by (simp add: validate_blank)
  qed
  with keys show ?thesis by blast
qed

lemma blank_spaces: "blank ''  ''" by code_simp

theorem blank_never_cached_witness:
  "''  '' \<notin> fst ` set (validationCache (snd (validateExpression initial_state ''t''))) \<and>
   validateExpression (snd (validateExpression initial_state ''t'')) ''  '' =
     (empty_result, snd (validateExpression initial_state ''t''))"
proof -
  have r: "reachable run_host (snd (validateExpression initial_state ''t''))"
    by (intro reachable.intros)
  show ?thesis
    using blank_never_cached[OF r, of "''  ''"] blank_spaces by blast
qed


subsection \<open>The steps of the validator only add errors\<close>









lemma analyzeComplexity_frame:
  "isValid (analyzeComplexity e r) = isValid r" "errors (analyzeComplexity e r) = errors r"
  by (simp_all add: analyzeComplexity_def Let_def)

lemma extractDependencies_frame:
  "isValid (extractDependencies e r) = isValid r" "errors (extractDependencies e r) = errors r"
  "warnings (extractDependencies e r) = warnings r" "complexity (extractDependencies e r) = complexity r"
  by (simp_all add: extractDependencies_def Let_def)





subsection \<open>Validation in reachable states\<close>

lemma reachable_validate:
  assumes "reachable h s"
  shows "fst (validateExpression s e) = (if blank e then empty_result else checked e)"
proof -
  have inv: "cache_inv s" using assms by (rule reachable_inv)
  show ?thesis
  proof (cases "map_of (validationCache s) e")
    case None
    then show ?thesis by (cases "blank e") (simp_all add: validate_blank validate_fresh)
  next
    case (Some r)
    then have "(e, r) \<in> set (validationCache s)" by (rule map_of_SomeD)
    then have "\<not> blank e \<and> r = checked e"
      using inv by (auto simp: cache_inv_def caches_ok_def)
    then show ?thesis using Some by (simp add: validate_cached)
  qed
qed







subsection \<open>The counters\<close>

lemma stats_simps:
  "stats (handleEvaluationError clk ty msg s) = stats s"
  "stats (count_total s) = (stats s)\<lparr>totalEvaluations := totalEvaluations (stats s) + 1\<rparr>"
  "stats (count_failure s) = (stats s)\<lparr>failedEvaluations := failedEvaluations (stats s) + 1\<rparr>"
  "stats (count_success s) = (stats s)\<lparr>successfulEvaluations := successfulEvaluations (stats s) + 1\<rparr>"
  "stats (snd (validateExpression s e)) = stats s"
  by (simp_all add: handleEvaluationError_def count_total_def count_failure_def count_success_def
      validate_frame)

lemma updateStats_counters:
  "totalEvaluations (stats (updateStats clk b s)) = totalEvaluations (stats s)"
  "successfulEvaluations (stats (updateStats clk b s)) = successfulEvaluations (stats s)"
  "failedEvaluations (stats (updateStats clk b s)) = failedEvaluations (stats s)"
  by (simp_all add: updateStats_def Let_def)

lemma clearOldest_stats:
  "clearOldestCacheEntries s = Done u s' \<Longrightarrow> stats s' = stats s"
  "clearOldestCacheEntries s = Raised err s' \<Longrightarrow> stats s' = stats s"
  by (auto simp: clearOldestCacheEntries_def Let_def split: sum.splits)

lemma clearOldest_not_Hangs: "clearOldestCacheEntries s \<noteq> Hangs"
  by (simp add: clearOldestCacheEntries_def Let_def split: sum.splits)

lemma evaluate_try_failed:
  "evaluate_try h clk s0 e ctx = Done v s1 \<or> evaluate_try h clk s0 e ctx = Raised err s1 \<Longrightarrow>
     failedEvaluations (stats s1) = failedEvaluations (stats s0)"
proof -
  assume a: "evaluate_try h clk s0 e ctx = Done v s1 \<or> evaluate_try h clk s0 e ctx = Raised err s1"
  let ?s = "snd (validateExpression s0 e)"
  have st: "stats ?s = stats s0" by (simp add: validate_frame)
  have ex: "failedEvaluations (stats x') = failedEvaluations (stats x)"
    if "executeFunction clk f ctx x = Done r x' \<or> executeFunction clk f ctx x = Raised er x'" for f x x' r er
    using that execute_Done[of clk f ctx x r x'] execute_Raised[of clk f ctx x er x'] by auto
  show ?thesis
  proof (cases "isValid (fst (validateExpression s0 e))")
    case False
    then show ?thesis using a st
      by (auto simp: evaluate_try_def stats_simps case_prod_beta)
  next
    case valid: True
    show ?thesis
    proof (cases "map_of (expressionCache ?s) (createCacheKey e)")
      case (Some f)
      then have "evaluate_try h clk s0 e ctx = executeFunction clk f ctx (updateStats clk True ?s)"
        using valid by (simp add: evaluate_try_def case_prod_beta)
      then show ?thesis using a ex[of f "updateStats clk True ?s" v s1 err] st
        by (auto simp: updateStats_counters)
    next
      case None
      show ?thesis
      proof (cases "compileExpression h e")
        case (Inl er)
        then show ?thesis using a valid None st
          by (auto simp: evaluate_try_def case_prod_beta)
      next
        case (Inr f)
        let ?c = "if length (expressionCache ?s) \<ge> MAX_CACHE_SIZE
                             then clearOldestCacheEntries ?s else Done () ?s"
        show ?thesis
        proof (cases ?c)
          case Hangs
          then show ?thesis using clearOldest_not_Hangs[of ?s] by (simp split: if_splits)
        next
          case (Raised er x)
          then have "stats x = stats ?s" using clearOldest_stats(2)[of ?s er x] by (simp split: if_splits)
          moreover have "evaluate_try h clk s0 e ctx = Raised er x"
            using valid None Inr Raised by (simp add: evaluate_try_def case_prod_beta)
          ultimately show ?thesis using a st by auto
        next
          case (Done u x)
          then have sx: "stats x = stats ?s" using clearOldest_stats(1)[of ?s u x] by (auto split: if_splits)
          let ?x = "x\<lparr>expressionCache := Map_set (createCacheKey e) f (expressionCache x)\<rparr>"
          have ev: "evaluate_try h clk s0 e ctx =
                  (case executeFunction clk f ctx ?x of
                     Done result s \<Rightarrow> Done result (count_success (updateStats clk False s))
                   | Raised error s \<Rightarrow> Raised error s
                   | Hangs \<Rightarrow> Hangs)"
            using valid None Inr Done by (simp add: evaluate_try_def Let_def case_prod_beta)
          show ?thesis
          proof (cases "executeFunction clk f ctx ?x")
            case (Done r x')
            then show ?thesis using a ev ex[of f ?x r x' err] sx st
              by (auto simp: stats_simps updateStats_counters)
          next
            case (Raised er x')
            then show ?thesis using a ev ex[of f ?x v x' er] sx st by auto
          next
            case Hangs
            then show ?thesis using a ev by simp
          qed
        qed
      qed
    qed
  qed
qed

text \<open>
  C9. When validation rejects the text, \<open>evaluate\<close> returns 0 and raises
  \<open>totalEvaluations\<close> by one; the counts of successes and failures, the average
  time, the hit rate and the compiled cache stay as they were. Whenever \<open>evaluate\<close>
  returns, \<open>failedEvaluations\<close> has grown by one if the \<open>try\<close> block threw, and
  not at all otherwise.
\<close>

theorem rejection_frame:
  "(\<not> isValid (fst (validateExpression s e)) \<longrightarrow>
      (\<exists>s'. evaluate h clk s e ctx = Done (Finite 0) s' \<and>
            totalEvaluations (stats s') = totalEvaluations (stats s) + 1 \<and>
            successfulEvaluations (stats s') = successfulEvaluations (stats s) \<and>
            failedEvaluations (stats s') = failedEvaluations (stats s) \<and>
            averageEvaluationTime (stats s') = averageEvaluationTime (stats s) \<and>
            cacheHitRate (stats s') = cacheHitRate (stats s) \<and>
            expressionCache s' = expressionCache s)) \<and>
   (\<forall>v s'. evaluate h clk s e ctx = Done v s' \<longrightarrow>
      failedEvaluations (stats s') =
        failedEvaluations (stats s) +
          (if \<exists>err s1. evaluate_try h clk (count_total s) e ctx = Raised err s1 then 1 else 0))"
proof -
  have one: "\<exists>s'. evaluate h clk s e ctx = Done (Finite 0) s' \<and>
            totalEvaluations (stats s') = totalEvaluations (stats s) + 1 \<and>
            successfulEvaluations (stats s') = successfulEvaluations (stats s) \<and>
            failedEvaluations (stats s') = failedEvaluations (stats s) \<and>
            averageEvaluationTime (stats s') = averageEvaluationTime (stats s) \<and>
            cacheHitRate (stats s') = cacheHitRate (stats s) \<and>
            expressionCache s' = expressionCache s"
    if "\<not> isValid (fst (validateExpression s e))"
    by (simp add: evaluate_invalid[OF that] stats_simps frame_simps)
  have two: "failedEvaluations (stats s') =
        failedEvaluations (stats s) +
          (if \<exists>err s1. evaluate_try h clk (count_total s) e ctx = Raised err s1 then 1 else 0)"
    if ev: "evaluate h clk s e ctx = Done v s'" for v s'
  proof (cases "evaluate_try h clk (count_total s) e ctx")
    case (Done r s1)
    then have "s' = s1" using ev by (simp add: evaluate_def)
    moreover have "failedEvaluations (stats s1) = failedEvaluations (stats (count_total s))"
      using evaluate_try_failed[of h clk "count_total s" e ctx r s1] Done by simp
    ultimately show ?thesis using Done by (simp add: stats_simps)
  next
    case (Raised err s1)
    then have "evaluate_catch clk err s1 = Done v s'"
      using ev by (simp add: evaluate_def)
    then have "\<exists>text. s' = count_failure (handleEvaluationError clk EXPRESSION_EVALUATION_ERROR
                  (''Evaluation failed: '' @ text) s1)"
      by (auto simp: evaluate_catch_def split: thrown.splits)
    moreover have "failedEvaluations (stats s1) = failedEvaluations (stats (count_total s))"
      using evaluate_try_failed[of h clk "count_total s" e ctx _ s1 err] Raised by simp
    ultimately show ?thesis using Raised by (auto simp: stats_simps)
  next
    case Hangs
    then show ?thesis using ev by (simp add: evaluate_def)
  qed
  from one two show ?thesis by blast
qed

lemma eval1_invalid: "\<not> isValid (fst (validateExpression initial_state ''eval(1)''))"
  by code_simp

lemma tt_run:
  "case evaluate_try run_host run_clock (count_total initial_state) ''t t'' [] of
     Raised err s1 \<Rightarrow> True | _ \<Rightarrow> False"
  by code_simp

lemma tt_done:
  "case evaluate run_host run_clock initial_state ''t t'' [] of
     Done v s' \<Rightarrow> True | _ \<Rightarrow> False"
  by code_simp

theorem rejection_frame_witness:
  "(\<exists>s'. evaluate run_host run_clock initial_state ''eval(1)'' [] = Done (Finite 0) s' \<and>
         totalEvaluations (stats s') = totalEvaluations (stats initial_state) + 1 \<and>
         successfulEvaluations (stats s') = successfulEvaluations (stats initial_state) \<and>
         failedEvaluations (stats s') = failedEvaluations (stats initial_state) \<and>
         averageEvaluationTime (stats s') = averageEvaluationTime (stats initial_state) \<and>
         cacheHitRate (stats s') = cacheHitRate (stats initial_state) \<and>
         expressionCache s' = expressionCache initial_state) \<and>
   (\<exists>v s'. evaluate run_host run_clock initial_state ''t t'' [] = Done v s' \<and>
           failedEvaluations (stats s') = failedEvaluations (stats initial_state) + 1)"
proof -
  obtain v s' where d: "evaluate run_host run_clock initial_state ''t t'' [] = Done v s'"
    using tt_done by (auto split: outcome.splits)
  have r: "\<exists>err s1. evaluate_try run_host run_clock (count_total initial_state) ''t t'' [] = Raised err s1"
    using tt_run by (auto split: outcome.splits)
  have "failedEvaluations (stats s') = failedEvaluations (stats initial_state) + 1"
    using rejection_frame[where s=initial_state and e="''t t''" and h=run_host and clk=run_clock and ctx="[]"]
      d r by simp
  then show ?thesis
    using rejection_frame[where s=initial_state and e="''eval(1)''" and h=run_host and clk=run_clock and ctx="[]"]
      eval1_invalid d by blast
qed

subsection \<open>The keys of the caches\<close>

text \<open>
  C6, as amended. The validation cache is keyed by the text as given: a result is
  looked up under the text itself, and a new result is stored under the text
  itself, adding no other key. The compiled cache is keyed by the trimmed text: a
  unit found under the trimmed text is reused and the cache stays as it was, and a
  new unit is stored under the trimmed text, adding no other key.
\<close>

theorem cache_keys:
  "reachable h s \<Longrightarrow>
     (map_of (validationCache s) e = Some r \<longrightarrow> validateExpression s e = (r, s)) \<and>
     (map_of (validationCache s) e = None \<and> \<not> blank e \<longrightarrow>
        map_of (validationCache (snd (validateExpression s e))) e = Some (fst (validateExpression s e)) \<and>
        fst ` set (validationCache (snd (validateExpression s e))) \<subseteq> insert e (fst ` set (validationCache s))) \<and>
     (isValid (fst (validateExpression s e)) \<and> map_of (expressionCache s) (trim e) = Some f \<and>
      evaluate h clk s e ctx = Done v s' \<longrightarrow> expressionCache s' = expressionCache s) \<and>
     (isValid (fst (validateExpression s e)) \<and> map_of (expressionCache s) (trim e) = None \<and>
      compileExpression h e = Inr f \<and> evaluate h clk s e ctx = Done v s' \<longrightarrow>
        map_of (expressionCache s') (trim e) = Some f \<and>
        fst ` set (expressionCache s') \<subseteq> insert (trim e) (fst ` set (expressionCache s)))"
proof -
  assume r: "reachable h s"
  then have "cache_inv s" by (rule reachable_inv)
  then have d: "distinct (map fst (expressionCache s))" by (simp add: cache_inv_def caches_ok_def)
  have two: "map_of (validationCache (snd (validateExpression s e))) e = Some (fst (validateExpression s e)) \<and>
        fst ` set (validationCache (snd (validateExpression s e))) \<subseteq> insert e (fst ` set (validationCache s))"
    if "map_of (validationCache s) e = None \<and> \<not> blank e"
    using that by (auto simp: validate_fresh Map_set_lookup Map_set_keys)
  have three: "expressionCache s' = expressionCache s"
    if a: "isValid (fst (validateExpression s e)) \<and> map_of (expressionCache s) (trim e) = Some f \<and>
      evaluate h clk s e ctx = Done v s'"
  proof -
    let ?s2 = "updateStats clk True (count_total (snd (validateExpression s e)))"
    show ?thesis
    proof (cases "executeFunction clk f ctx ?s2")
      case (Done r' x)
      then show ?thesis using a execute_Done[OF Done] by (auto simp: evaluate_hit frame_simps)
    next
      case (Raised err x)
      then have "evaluate_catch clk err ?s2 = Done v s'"
        using a execute_Raised[OF Raised] by (auto simp: evaluate_hit)
      then show ?thesis using catch_frame[of clk err ?s2 v s'] by (simp add: frame_simps)
    next
      case Hangs
      then show ?thesis using a by (auto simp: evaluate_hit)
    qed
  qed
  have four: "map_of (expressionCache s') (trim e) = Some f \<and>
        fst ` set (expressionCache s') \<subseteq> insert (trim e) (fst ` set (expressionCache s))"
    if a: "isValid (fst (validateExpression s e)) \<and> map_of (expressionCache s) (trim e) = None \<and>
      compileExpression h e = Inr f \<and> evaluate h clk s e ctx = Done v s'"
  proof -
    let ?ec = "if MAX_CACHE_SIZE \<le> length (expressionCache s)
               then drop 300 (expressionCache s) else expressionCache s"
    have ec: "expressionCache s' = ?ec @ [(trim e, f)]"
      using evaluate_miss_cache[OF d, where e=e and h=h and f=f and clk=clk and ctx=ctx] a by simp
    have sub: "set ?ec \<subseteq> set (expressionCache s)"
      using set_drop_subset[of 300 "expressionCache s"] by auto
    have "trim e \<notin> fst ` set (expressionCache s)" using a by (simp add: map_of_eq_None_iff)
    then have "trim e \<notin> fst ` set ?ec" using sub by blast
    then have "map_of ?ec (trim e) = None" by (simp add: map_of_eq_None_iff)
    then have "map_of (expressionCache s') (trim e) = Some f" unfolding ec by (simp add: map_add_def)
    moreover have "fst ` set (expressionCache s') \<subseteq> insert (trim e) (fst ` set (expressionCache s))"
      unfolding ec using sub by auto
    ultimately show ?thesis by blast
  qed
  show ?thesis using two three four by (simp add: validate_cached)
qed

lemma key_facts:
  "trim '' t '' = ''t''" "\<not> blank '' t ''" "isValid (checked '' t '')" "\<not> blank '' t''"
  by code_simp+

lemma t_done:
  "case evaluate run_host run_clock initial_state ''t'' [] of Done v s' \<Rightarrow> True | _ \<Rightarrow> False"
  by code_simp

lemma unit_t_returns: "identifier_unit standard_globals ''t'' [] = Returns (Num (Finite 0))"
  by code_simp

theorem cache_keys_witness:
  "validateExpression (snd (validateExpression initial_state ''t'')) ''t'' =
     (checked ''t'', snd (validateExpression initial_state ''t'')) \<and>
   map_of (validationCache (snd (validateExpression initial_state '' t''))) '' t'' =
     Some (fst (validateExpression initial_state '' t'')) \<and>
   (\<exists>v s1 v' s2.
      evaluate run_host run_clock initial_state ''t'' [] = Done v s1 \<and>
      map_of (expressionCache s1) (trim ''t'') = Some (identifier_unit standard_globals ''t'') \<and>
      evaluate run_host run_clock s1 '' t '' [] = Done v' s2 \<and>
      expressionCache s2 = expressionCache s1)"
proof -
  have r0: "reachable run_host initial_state" by (rule reachable.start)
  have r1: "reachable run_host (snd (validateExpression initial_state ''t''))"
    by (intro reachable.intros)
  have v0: "map_of (validationCache initial_state) e = None" for e
    by (simp add: initial_state_def)
  have one: "validateExpression (snd (validateExpression initial_state ''t'')) ''t'' =
     (checked ''t'', snd (validateExpression initial_state ''t''))"
    using cache_keys[OF r1, where e="''t''" and r="checked ''t''"]
    by (simp add: validate_fresh v0 not_blank_t Map_set_lookup)
  have two: "map_of (validationCache (snd (validateExpression initial_state '' t''))) '' t'' =
     Some (fst (validateExpression initial_state '' t''))"
    using cache_keys[OF r0, where e="'' t''"] v0 key_facts by simp
  obtain v s1 where e1: "evaluate run_host run_clock initial_state ''t'' [] = Done v s1"
    using t_done by (auto split: outcome.splits)
  have r2: "reachable run_host s1" using reachable.evaluated[OF r0 e1] .
  have val: "isValid (fst (validateExpression initial_state ''t''))"
    by (simp add: reachable_validate[OF r0] not_blank_t checked_t)
  have m1: "map_of (expressionCache s1) (trim ''t'') = Some (identifier_unit standard_globals ''t'')"
    using cache_keys[OF r0, where e="''t''" and f="identifier_unit standard_globals ''t''"
        and clk=run_clock and ctx="[]" and v=v and s'=s1]
      val e1 compile_t by (simp add: initial_state_def)
  have val2: "isValid (fst (validateExpression s1 '' t ''))"
    by (simp add: reachable_validate[OF r2] key_facts)
  have m2: "map_of (expressionCache s1) (trim '' t '') = Some (identifier_unit standard_globals ''t'')"
    using m1 by (simp add: key_facts trim_t)
  obtain v' s2 where e2: "evaluate run_host run_clock s1 '' t '' [] = Done v' s2"
    using evaluate_hit[OF val2 m2, of run_host run_clock "[]"] unit_t_returns
    by (auto simp: executeFunction_def Let_def)
  have "expressionCache s2 = expressionCache s1"
    using cache_keys[OF r2, where e="'' t ''" and f="identifier_unit standard_globals ''t''"
        and clk=run_clock and ctx="[]" and v=v' and s'=s2] val2 m2 e2 by simp
  then show ?thesis using one two e1 m1 e2 by blast
qed

text \<open>
  C6 as stated fails for the validation cache: \<open>t\<close> and the same text after a
  space differ only in leading white space, and validating both leaves two
  entries, one under each text.
\<close>

theorem validation_key_counterexample:
  "map fst (validationCache (snd (validateExpression (snd (validateExpression initial_state ''t'')) '' t''))) =
     [''t'', '' t''] \<and>
   trim '' t'' = ''t''"
  by code_simp

subsection \<open>The outcomes of evaluate\<close>
















subsection \<open>Concrete runs\<close>







text \<open>
  C2. The run \<open>evaluate("x", {t: 0, time: 0, x: 5})\<close>: the text is valid and \<open>x\<close> is
  its variable; the unit binds \<open>context\<close>, \<open>t\<close>, \<open>time\<close> and \<open>vars\<close>, and the entry
  for \<open>x\<close> sits inside \<open>vars\<close>; the call returns 0, not 5.
\<close>

theorem extra_variable_unbound:
  "isValid (fst (validateExpression initial_state ''x'')) \<and>
   variablesUsed (fst (validateExpression initial_state ''x'')) = [''x''] \<and>
   safeExpression ''x'' = ''x'' \<and>
   map fst (unit_locals x5) = [''context'', ''t'', ''time'', ''vars''] \<and>
   map_of (unit_locals x5) ''vars'' = Some (Object [(''x'', Finite 5)]) \<and>
   (case evaluate run_host run_clock initial_state ''x'' x5 of
      Done v s' \<Rightarrow> v = Finite 0
    | Raised err s' \<Rightarrow> False
    | Hangs \<Rightarrow> False)"
  by code_simp

text \<open>
  C3. Two calls of \<open>evaluate("t", {t: 0, time: 0})\<close> from the start: both return,
  nothing fails, the second is answered from the cache, and the success rate is
  50, not 100: one success is counted for two evaluations.
\<close>

theorem cache_hit_not_counted:
  "case evaluate run_host run_clock initial_state ''t'' tt0 of
     Done v1 s1 \<Rightarrow>
       (case evaluate run_host run_clock s1 ''t'' tt0 of
          Done v2 s2 \<Rightarrow>
            v1 = Finite 0 \<and> v2 = Finite 0 \<and> console s2 = [] \<and>
            map fst (expressionCache s1) = [createCacheKey ''t''] \<and>
            map fst (expressionCache s2) = [createCacheKey ''t''] \<and>
            totalEvaluations (stats s2) = 2 \<and> successfulEvaluations (stats s2) = 1 \<and>
            failedEvaluations (stats s2) = 0 \<and>
            successRate (getEvaluationStats 1000 s2) = 50
        | Raised err s2 \<Rightarrow> False
        | Hangs \<Rightarrow> False)
   | Raised err s1 \<Rightarrow> False
   | Hangs \<Rightarrow> False"
  by code_simp

subsection \<open>Denied constructs\<close>











subsection \<open>The deny-list finds what the specification's words say\<close>


























subsection \<open>The matches of the complexity patterns\<close>

lemma lit_at_take:
  "lit_at False w b a =
     (if take (length w) a = w then Some (rev w @ b, drop (length w) a) else None)"
proof (induction w arbitrary: b a)
  case Nil
  show ?case by simp
next
  case (Cons x w)
  show ?case
  proof (cases a)
    case Nil
    then show ?thesis by simp
  next
    case (Cons c a')
    then show ?thesis using Cons.IH[of "c # b" a'] by auto
  qed
qed

lemma alts_at:
  "ws \<noteq> [] \<Longrightarrow>
     rx_at False (alts ws) (b, a, cap) =
       map (\<lambda>w. (rev w @ b, drop (length w) a, cap)) (filter (\<lambda>w. take (length w) a = w) ws)"
proof (induction ws rule: alts.induct)
  case 1
  then show ?case by simp
next
  case (2 w)
  show ?case by (simp add: lit_at_take)
next
  case (3 w v ws)
  then show ?case by (simp add: lit_at_take)
qed

lemma concat_map_if:
  "concat (map (\<lambda>x. if P x then [f x] else []) xs) = map f (filter P xs)"
  by (induction xs) auto

lemma word_next_rev:
  "w \<noteq> [] \<Longrightarrow> list_all is_word w \<Longrightarrow> word_next (rev w @ b)"
  by (cases w rule: rev_cases) (auto simp: word_next_def)

lemma word_next_take:
  "w \<noteq> [] \<Longrightarrow> list_all is_word w \<Longrightarrow> take (length w) a = w \<Longrightarrow> word_next a"
  by (cases w; cases a) (auto simp: word_next_def)

lemma words_at:
  assumes "words_ok ws"
  shows "rx_at False (words_of ws) (b, a, None) =
           map (\<lambda>w. (rev w @ b, drop (length w) a, Some w)) (filter (\<lambda>w. word_here w b a) ws)"
proof -
  have ne: "ws \<noteq> []" and ok: "\<And>w. w \<in> set ws \<Longrightarrow> w \<noteq> [] \<and> list_all is_word w"
    using assms by (auto simp: words_ok_def list_all_iff)
  have grp: "rx_at False (Grp (alts ws)) (b, a, None) =
               map (\<lambda>w. (rev w @ b, drop (length w) a, Some w)) (filter (\<lambda>w. take (length w) a = w) ws)"
    by (simp add: alts_at[OF ne] comp_def)
  have after: "concat (map (rx_at False WordB)
                 (map (\<lambda>w. (rev w @ b, drop (length w) a, Some w)) (filter (\<lambda>w. take (length w) a = w) ws))) =
               map (\<lambda>w. (rev w @ b, drop (length w) a, Some w))
                 (filter (\<lambda>w. \<not> word_next (drop (length w) a)) (filter (\<lambda>w. take (length w) a = w) ws))"
  proof -
    have eq: "map (rx_at False WordB)
            (map (\<lambda>w. (rev w @ b, drop (length w) a, Some w)) (filter (\<lambda>w. take (length w) a = w) ws)) =
          map (\<lambda>w. if \<not> word_next (drop (length w) a) then [(rev w @ b, drop (length w) a, Some w)] else [])
            (filter (\<lambda>w. take (length w) a = w) ws)"
      using ok by (auto simp: word_next_rev)
    show ?thesis unfolding eq concat_map_if by (rule refl)
  qed
  have "rx_at False (Seq (Grp (alts ws)) WordB) (b, a, None) =
          concat (map (rx_at False WordB) (rx_at False (Grp (alts ws)) (b, a, None)))"
    by simp
  then have body: "rx_at False (Seq (Grp (alts ws)) WordB) (b, a, None) =
                map (\<lambda>w. (rev w @ b, drop (length w) a, Some w))
                 (filter (\<lambda>w. take (length w) a = w \<and> \<not> word_next (drop (length w) a)) ws)"
    unfolding grp after filter_filter by (simp add: conj_commute)
  show ?thesis
  proof (cases "word_next b \<noteq> word_next a")
    case True
    have "filter (\<lambda>w. take (length w) a = w \<and> \<not> word_next (drop (length w) a)) ws =
          filter (\<lambda>w. word_here w b a) ws"
    proof (rule filter_cong[OF refl])
      fix w assume w: "w \<in> set ws"
      show "(take (length w) a = w \<and> \<not> word_next (drop (length w) a)) = word_here w b a"
        using True ok[OF w] word_next_take[of w a] by (auto simp: word_here_def)
    qed
    then show ?thesis using True body by (simp add: words_of_def)
  next
    case False
    have "filter (\<lambda>w. word_here w b a) ws = []"
    proof -
      have "\<not> word_here w b a" if w: "w \<in> set ws" for w
        using False ok[OF w] word_next_take[of w a] by (auto simp: word_here_def)
      then show ?thesis by (simp add: filter_empty_conv)
    qed
    then show ?thesis using False by (simp add: words_of_def)
  qed
qed

lemma scan_match:
  "rx_at ic r (b, c # cs, None) = (b', a', cap) # ms \<Longrightarrow> length (c # cs) - length a' = Suc j \<Longrightarrow>
     rx_scan True ic r 0 b (c # cs) = Hit (take (Suc j) (c # cs)) cap # rx_scan True ic r j (c # b) cs"
  by (simp add: Let_def) arith

lemma scan_words:
  assumes ok: "words_ok ws"
  shows "skip \<le> length a \<Longrightarrow>
         (0 < skip \<Longrightarrow> word_next b \<and> list_all is_word (take (skip - 1) a)) \<Longrightarrow>
         length (hits (rx_scan True False (words_of ws) skip b a)) = whole_words ws b a"
proof (induction a arbitrary: skip b)
  case Nil
  have "\<not> word_here w b []" if "w \<in> set ws" for w
    using ok that by (auto simp: words_ok_def list_all_iff word_here_def)
  then have "filter (\<lambda>w. word_here w b []) ws = []" by (simp add: filter_empty_conv)
  then show ?case using Nil.prems(1) by (simp add: words_at[OF ok])
next
  case (Cons c cs)
  show ?case
  proof (cases skip)
    case (Suc k)
    have wb: "word_next b" and lw: "list_all is_word (take k (c # cs))"
      using Cons.prems(2) Suc by auto
    have "\<not> word_here w b (c # cs)" for w using wb by (simp add: word_here_def)
    then have ww: "whole_words ws b (c # cs) = whole_words ws (c # b) cs" by simp
    have "length (hits (rx_scan True False (words_of ws) k (c # b) cs)) = whole_words ws (c # b) cs"
    proof (rule Cons.IH)
      show "k \<le> length cs" using Cons.prems(1) Suc by simp
      show "word_next (c # b) \<and> list_all is_word (take (k - 1) cs)" if pos: "0 < k"
      proof -
        obtain j where j: "k = Suc j" using pos by (cases k) auto
        then show ?thesis using lw by (simp add: word_next_def)
      qed
    qed
    then show ?thesis using Suc ww by simp
  next
    case 0
    show ?thesis
    proof (cases "filter (\<lambda>w. word_here w b (c # cs)) ws")
      case Nil
      then have none: "\<not> (\<exists>w \<in> set ws. word_here w b (c # cs))" by (simp add: filter_empty_conv)
      have "length (hits (rx_scan True False (words_of ws) 0 (c # b) cs)) = whole_words ws (c # b) cs"
        by (rule Cons.IH) simp_all
      then show ?thesis using 0 Nil none by (simp add: words_at[OF ok])
    next
      case (Cons w rest)
      then have "w \<in> set (filter (\<lambda>w. word_here w b (c # cs)) ws)" by simp
      then have w: "w \<in> set ws" and here: "word_here w b (c # cs)" by auto
      have wne: "w \<noteq> []" and wword: "list_all is_word w"
        using ok w by (auto simp: words_ok_def list_all_iff)
      have tk: "take (length w) (c # cs) = w" using here by (simp add: word_here_def)
      have "min (length w) (length (c # cs)) = length w"
        using arg_cong[OF tk, of length] by (simp only: length_take)
      then have len: "length w \<le> length (c # cs)"
        by (simp only: min_def split: if_splits)
      obtain j where j: "length w = Suc j" using wne by (cases w) auto
      have tl: "w = c # take j cs" using tk j by simp
      have k: "length (c # cs) - length (drop (length w) (c # cs)) = length w"
        using len by simp
      have rec: "length (hits (rx_scan True False (words_of ws) j (c # b) cs)) = whole_words ws (c # b) cs"
      proof (rule Cons.IH)
        show "j \<le> length cs" using len j by simp
        show "word_next (c # b) \<and> list_all is_word (take (j - 1) cs)" if "0 < j"
        proof -
          have "list_all is_word (c # take j cs)" using wword tl by simp
          then have "is_word c" and all: "list_all is_word (take j cs)" by simp_all
          moreover have "set (take (j - 1) cs) \<subseteq> set (take j cs)"
            by (rule set_take_subset_set_take) simp
          ultimately show ?thesis by (auto simp: word_next_def list_all_iff)
        qed
      qed
      have at: "rx_at False (words_of ws) (b, c # cs, None) =
                  (rev w @ b, drop (length w) (c # cs), Some w) #
                  map (\<lambda>w. (rev w @ b, drop (length w) (c # cs), Some w)) rest"
        by (simp add: words_at[OF ok] Cons)
      have kj: "length (c # cs) - length (drop (length w) (c # cs)) = Suc j"
        using k j by (simp only:)
      have "hits (rx_scan True False (words_of ws) 0 b (c # cs)) =
              take (Suc j) (c # cs) # hits (rx_scan True False (words_of ws) j (c # b) cs)"
        unfolding scan_match[OF at kj] by simp
      moreover have "whole_words ws b (c # cs) = 1 + whole_words ws (c # b) cs"
        using w here by auto
      ultimately show ?thesis using 0 rec by simp
    qed
  qed
qed

lemma match_all_words:
  "words_ok ws \<Longrightarrow> length (match_all (words_of ws) e) = whole_word_count ws e"
  using scan_words[of ws 0 e "[]"] by (simp add: match_all_def rx_pieces_def whole_word_count_def)

lemma scan_class:
  "hits (rx_scan True False (Cls P) 0 b a) = map (\<lambda>c. [c]) (filter P a)"
  by (induction a arbitrary: b) simp_all

lemma scan_char:
  "hits (rx_scan True False (Lit [x]) 0 b a) = map (\<lambda>c. [c]) (filter (\<lambda>c. x = c) a)"
  by (induction a arbitrary: b) auto

lemma match_all_operators: "length (match_all operator_pattern e) = length (filter is_operator e)"
  by (simp add: match_all_def rx_pieces_def operator_pattern_def scan_class)

lemma match_all_parens: "length (match_all paren_pattern e) = count_list e (CHR ''('')"
  by (simp add: match_all_def rx_pieces_def paren_pattern_def scan_char count_list_eq_length_filter)

lemma words_ok_source: "words_ok common_words" "words_ok expensive_words"
  by code_simp+

lemma score_spec: "score e = spec_score e"
  by (simp add: score_def spec_score_def Let_def match_all_operators match_all_parens
      common_pattern_def expensive_pattern_def match_all_words words_ok_source
      common_words_def[symmetric] expensive_words_def[symmetric])

subsection \<open>Complexity and warnings\<close>

lemma warnings_forbid: "warnings (foldl (forbid e) r ps) = warnings r"
  by (induction ps arbitrary: r) (simp_all add: forbid_def)

lemma warnings_check_call: "warnings (foldl check_call r ns) = warnings r"
  by (induction ns arbitrary: r) (simp_all add: check_call_def)

lemma warnings_validateSecurity: "warnings (validateSecurity e r) = warnings r"
  by (simp add: validateSecurity_def warnings_forbid warnings_check_call)

lemma warnings_validateSyntax:
  "warnings (validateSyntax e r) =
     warnings r @ (if \<exists>pattern \<in> set invalidPatterns. rx_test False pattern e
                   then [''Potentially invalid syntax detected''] else [])"
  by (simp add: validateSyntax_def Let_def)

lemma warnings_check_length: "warnings (check_length e r) = warnings r"
  by (simp add: check_length_def)

lemma analyzeComplexity_result:
  "complexity (analyzeComplexity e r) = Math_round (score e)"
  "warnings (analyzeComplexity e r) =
     warnings r @
     (if Math_round (score e) > 100 then [''High complexity expression may impact performance''] else []) @
     (if Math_round (score e) > 500
      then [''Extremely complex expression may cause significant performance issues''] else [])"
  by (simp_all add: analyzeComplexity_def Let_def)

lemma checked_complexity:
  "complexity (checked e) = Math_round (spec_score e)"
  "warnings (checked e) =
     (if \<exists>pattern \<in> set invalidPatterns. rx_test False pattern e
      then [''Potentially invalid syntax detected''] else []) @
     (if Math_round (spec_score e) > 100 then [''High complexity expression may impact performance''] else []) @
     (if Math_round (spec_score e) > 500
      then [''Extremely complex expression may cause significant performance issues''] else [])"
  "isValid (checked e) = isValid (validateSecurity e (validateSyntax e (check_length e fresh_result)))"
  by (simp_all add: checked_def Let_def extractDependencies_frame analyzeComplexity_result
      analyzeComplexity_frame warnings_validateSecurity warnings_validateSyntax warnings_check_length
      score_spec fresh_result_def)

text \<open>
  C8, as amended. In every reachable state and for every text that is not blank,
  the complexity of the validation result is the score of the specification
  rounded to the nearest whole number, a half going up; the warnings are the
  syntax warning, if a syntax pattern matches, then the performance warning if the
  complexity is above 100, then the stronger warning if it is above 500; and the
  result is valid exactly when the length, syntax and security checks leave it
  valid, whatever the complexity.
\<close>

theorem complexity_score:
  "reachable h s \<Longrightarrow> \<not> blank e \<Longrightarrow>
     complexity (fst (validateExpression s e)) = Math_round (spec_score e) \<and>
     warnings (fst (validateExpression s e)) =
       (if \<exists>pattern \<in> set invalidPatterns. rx_test False pattern e
        then [''Potentially invalid syntax detected''] else []) @
       (if Math_round (spec_score e) > 100
        then [''High complexity expression may impact performance''] else []) @
       (if Math_round (spec_score e) > 500
        then [''Extremely complex expression may cause significant performance issues''] else []) \<and>
     isValid (fst (validateExpression s e)) =
       isValid (validateSecurity e (validateSyntax e (check_length e fresh_result)))"
proof -
  assume r: "reachable h s" and nb: "\<not> blank e"
  have "fst (validateExpression s e) = checked e"
    using reachable_validate[OF r, of e] nb by simp
  then show ?thesis using checked_complexity[of e] by simp
qed

lemma parens48:
  "\<not> blank (replicate 48 (CHR ''(''))" "Math_round (spec_score (replicate 48 (CHR ''(''))) = 101"
  by code_simp+

theorem complexity_score_witness:
  "complexity (fst (validateExpression initial_state (replicate 48 (CHR ''('')))) = 101 \<and>
   ''High complexity expression may impact performance'' \<in>
     set (warnings (fst (validateExpression initial_state (replicate 48 (CHR ''(''))))) \<and>
   ''Extremely complex expression may cause significant performance issues'' \<notin>
     set (warnings (fst (validateExpression initial_state (replicate 48 (CHR ''(''))))) \<and>
   isValid (fst (validateExpression initial_state (replicate 48 (CHR ''('')))) =
     isValid (validateSecurity (replicate 48 (CHR ''(''))
       (validateSyntax (replicate 48 (CHR ''('')) (check_length (replicate 48 (CHR ''('')) fresh_result)))"
  using complexity_score[OF reachable.start[of run_host] parens48(1)] parens48(2)
  by simp

text \<open>
  C8 as stated fails on a text of ten spaces: the formula gives 1, a tenth of the
  length and nothing else, and the result for a blank text has complexity 0.
\<close>

theorem blank_complexity_counterexample:
  "complexity (fst (validateExpression initial_state ''          '')) = 0 \<and>
   Math_round (0.1 * real (length ''          '')) = 1 \<and>
   Math_round (spec_score ''          '') = 1"
  by code_simp

end
